theory Spec2Isabelle
  imports Complex_Main "HOL-Library.AList" "HOL-Library.Sublist"
begin

section \<open>Python values\<close>

text \<open>
  The program is one Python module, \<^verbatim>\<open>superjob_auth.py\<close>. The values it handles
  are what \<^verbatim>\<open>resp.json()\<close> returns: \<^verbatim>\<open>None\<close>, booleans, integers, floats,
  strings, lists and dictionaries with string keys. A float is a finite fraction or an
  infinity (an overflowing literal such as \<^verbatim>\<open>1e999\<close>); the literal \<^verbatim>\<open>NaN\<close>, which
  the JSON grammar does not have, is left out. A dictionary is the association list of its
  items in insertion order; its keys are distinct, as they are in every Python dictionary.
  \<^verbatim>\<open>None\<close> is \<open>JNull\<close>.
\<close>

datatype pyfloat = Finite rat | PosInf | NegInf

datatype json =
    JNull
  | JBool bool
  | JInt int
  | JFloat pyfloat
  | JStr string
  | JList "json list"
  | JDict "(string \<times> json) list"

text \<open>The exceptions the modelled code can raise.\<close>

datatype py_error =
    AttributeError
  | TypeError
  | ValueError
  | ImportError
  | FileNotFoundError

text \<open>Sequencing of statements that may raise: the first exception ends the block.\<close>

definition py_bind :: "py_error + 'a \<Rightarrow> ('a \<Rightarrow> py_error + 'b) \<Rightarrow> py_error + 'b" where
  "py_bind m f = (case m of Inl e \<Rightarrow> Inl e | Inr v \<Rightarrow> f v)"

text \<open>
  The numeric reading of a value: \<^verbatim>\<open>bool\<close> is a subclass of \<^verbatim>\<open>int\<close>, and Python
  compares integers and floats by their exact values.
\<close>

fun num_of :: "json \<Rightarrow> pyfloat option" where
  "num_of (JBool b) = Some (Finite (if b then 1 else 0))"
| "num_of (JInt i) = Some (Finite (of_int i))"
| "num_of (JFloat f) = Some f"
| "num_of _ = None"

text \<open>
  \<^verbatim>\<open>a == b\<close>. Lists are equal when they have the same length and equal elements,
  dictionaries when they have the same number of keys and every key of the first has an equal
  value in the second.
\<close>

fun py_eq :: "json \<Rightarrow> json \<Rightarrow> bool" where
  "py_eq JNull b = (b = JNull)"
| "py_eq (JBool x) b = (num_of b = Some (Finite (if x then 1 else 0)))"
| "py_eq (JInt i) b = (num_of b = Some (Finite (of_int i)))"
| "py_eq (JFloat f) b = (num_of b = Some f)"
| "py_eq (JStr s) b = (b = JStr s)"
| "py_eq (JList xs) b = (case b of JList ys \<Rightarrow> list_all2 py_eq xs ys | _ \<Rightarrow> False)"
| "py_eq (JDict kvs) b =
     (case b of
        JDict kws \<Rightarrow>
          length kvs = length kws \<and>
          list_all (\<lambda>(k, v). case map_of kws k of None \<Rightarrow> False | Some w \<Rightarrow> py_eq v w) kvs
      | _ \<Rightarrow> False)"

text \<open>Truth value testing: \<^verbatim>\<open>if x:\<close>.\<close>

fun truthy :: "json \<Rightarrow> bool" where
  "truthy JNull = False"
| "truthy (JBool b) = b"
| "truthy (JInt i) = (i \<noteq> 0)"
| "truthy (JFloat f) = (f \<noteq> Finite 0)"
| "truthy (JStr s) = (s \<noteq> [])"
| "truthy (JList xs) = (xs \<noteq> [])"
| "truthy (JDict kvs) = (kvs \<noteq> [])"

text \<open>
  \<^verbatim>\<open>x.get(key, default)\<close>: only a dictionary has the method; on any other value the
  attribute lookup raises \<^verbatim>\<open>AttributeError\<close>.
\<close>

fun py_get :: "json \<Rightarrow> string \<Rightarrow> json \<Rightarrow> py_error + json" where
  "py_get (JDict kvs) k d = Inr (case map_of kvs k of None \<Rightarrow> d | Some v \<Rightarrow> v)"
| "py_get _ k d = Inl AttributeError"

text \<open>
  \<^verbatim>\<open>for item in x\<close>: a list yields its elements, a dictionary its keys, a string its
  characters; the other values are not iterable.
\<close>

fun py_iter :: "json \<Rightarrow> py_error + json list" where
  "py_iter (JList xs) = Inr xs"
| "py_iter (JDict kvs) = Inr (map (\<lambda>kv. JStr (fst kv)) kvs)"
| "py_iter (JStr s) = Inr (map (\<lambda>c. JStr [c]) s)"
| "py_iter _ = Inl TypeError"

section \<open>Chat-id extraction\<close>

text \<open>
  \<^verbatim>\<open>_extract_chat_id\<close>, lines 415 to 434. The two loops return from inside: \<open>Some v\<close> is
  \<^verbatim>\<open>return v\<close>, \<open>None\<close> is a loop that ran to its end.
\<close>

fun find_chat :: "json list \<Rightarrow> py_error + json option" where
  "find_chat [] = Inr None"
| "find_chat (item # rest) =
     py_bind (py_get item ''type'' JNull) (\<lambda>t.
       if py_eq t (JStr ''chat'')
       then py_bind (py_get item ''id'' JNull) (\<lambda>i. Inr (Some i))
       else find_chat rest)"

fun find_vacancy_response :: "json \<Rightarrow> json list \<Rightarrow> py_error + json option" where
  "find_vacancy_response vr_id [] = Inr None"
| "find_vacancy_response vr_id (item # rest) =
     py_bind (py_get item ''type'' JNull) (\<lambda>t.
       if py_eq t (JStr ''vacancyResponse'')
       then py_bind (py_get item ''id'' JNull) (\<lambda>i.
              if py_eq i vr_id
              then py_bind (py_get item ''relationships'' (JDict [])) (\<lambda>rels.
                   py_bind (py_get rels ''chat'' (JDict [])) (\<lambda>chat.
                   py_bind (py_get chat ''data'' (JDict [])) (\<lambda>chat_data.
                   py_bind (py_get chat_data ''id'' JNull) (\<lambda>c. Inr (Some c)))))
              else find_vacancy_response vr_id rest)
       else find_vacancy_response vr_id rest)"

text \<open>The body of the \<^verbatim>\<open>try\<close> block.\<close>

definition extract_chat_id_try :: "json \<Rightarrow> py_error + json" where
  "extract_chat_id_try response =
     py_bind (py_get response ''included'' (JList [])) (\<lambda>included.
     py_bind (py_iter included) (\<lambda>items.
     py_bind (find_chat items) (\<lambda>found.
       case found of
         Some i \<Rightarrow> Inr i
       | None \<Rightarrow>
           py_bind (py_get response ''data'' (JDict [])) (\<lambda>data.
           py_bind (py_get data ''relationships'' (JDict [])) (\<lambda>relationships.
           py_bind (py_get relationships ''vacancyResponse'' (JDict [])) (\<lambda>vr.
           py_bind (py_get vr ''data'' (JDict [])) (\<lambda>vacancy_response.
           py_bind (py_get vacancy_response ''id'' JNull) (\<lambda>vr_id.
             if truthy vr_id
             then py_bind (find_vacancy_response vr_id items) (\<lambda>found2.
                    case found2 of Some c \<Rightarrow> Inr c | None \<Rightarrow> Inr JNull)
             else Inr JNull))))))))"

text \<open>\<^verbatim>\<open>except Exception: pass\<close>, then \<^verbatim>\<open>return None\<close>.\<close>

definition extract_chat_id :: "json \<Rightarrow> json" where
  "extract_chat_id response =
     (case extract_chat_id_try response of Inl e \<Rightarrow> JNull | Inr v \<Rightarrow> v)"

section \<open>The session, the configuration and the world\<close>

text \<open>
  A Python dictionary of cookies (name to value) is an association list in insertion order,
  built with \<open>AList.update\<close>, which overwrites a key in place and appends a new one.
  The cookie jar of \<^verbatim>\<open>requests.Session\<close> is keyed by domain, path and name.
\<close>

type_synonym cookies = "(string \<times> string) list"

type_synonym cookie_key = "string \<times> string \<times> string"

type_synonym jar = "cookie_key \<Rightarrow> string option"

text \<open>
  An HTTP request as the code issues it: the method, the URL, whether redirects are followed
  (\<^verbatim>\<open>requests\<close> follows them unless told otherwise) and what the call carries. The
  identifiers that \<^verbatim>\<open>uuid.uuid4()\<close> draws for a document and the client timestamp of a
  message are not part of the model.
\<close>

datatype http_method = GET | POST

datatype payload =
    NoPayload
  | SearchQuery string int int
  | ApplicationDoc string string bool
  | MessageDoc json string

record request =
  req_method :: http_method
  req_url :: string
  req_follow :: bool
  req_payload :: payload

text \<open>
  What comes back: a response with its status code, its \<^verbatim>\<open>Location\<close> header and its
  body, or an exception raised by the transport, with its message. A body is empty
  (\<^verbatim>\<open>resp.text\<close> is the empty string), parses as JSON, or makes \<^verbatim>\<open>resp.json()\<close> raise.
\<close>

datatype body = EmptyBody | JsonBody json | BadBody string

datatype outcome = Responded int "string option" body | TransportError string

text \<open>\<^verbatim>\<open>SuperjobConfig\<close>, lines 30 to 43.\<close>

record config =
  cfg_browser :: string
  cfg_resume_id :: string
  cfg_search_keywords :: "string list"
  cfg_search_limit :: int
  cfg_max_pages :: int
  cfg_cover_letter :: string

text \<open>One vacancy of a search result and the result of \<^verbatim>\<open>search_vacancies\<close>.\<close>

record vacancy =
  v_id :: string
  v_title :: string
  v_company :: string
  v_salary_min :: int
  v_salary_max :: int
  v_url :: string

record search_result =
  sr_total :: int
  sr_vacancies :: "vacancy list"

text \<open>
  What the program does not decide: the server's answer to the \<open>n\<close>-th request of the run,
  given the cookie jar it is sent with; the \<^verbatim>\<open>browser_cookie3\<close> package (\<open>None\<close> when it
  is not installed), which for a browser name raises, with a message, or yields the site's
  cookies in the order of the browser's store; the files that \<^verbatim>\<open>open\<close> can read, as
  their lines; whether the cache file can be written; the join of a search response's
  side-resources into vacancies (lines 541 to 570, \<open>None\<close> when it raises), taken at the
  types the docstrings declare; and Python's \<^verbatim>\<open>str()\<close> of a value.
\<close>

record env =
  network :: "nat \<Rightarrow> jar \<Rightarrow> request \<Rightarrow> outcome"
  browser_cookie3 :: "(string \<Rightarrow> string + cookies) option"
  read_lines :: "string \<Rightarrow> string list option"
  cache_writable :: bool
  parse_search :: "json \<Rightarrow> search_result option"
  py_str :: "json \<Rightarrow> string"

text \<open>What the program does to the world, in order.\<close>

datatype event =
    EvLoadCache
  | EvSaveCache cookies
  | EvExtract string
  | EvRequest request outcome

text \<open>
  The state a call works on: \<^verbatim>\<open>self.config\<close>, the cookie jar of \<^verbatim>\<open>self.session\<close>, the
  contents of the cookie cache file (\<open>None\<close> when \<^verbatim>\<open>_load_cached_cookies\<close> finds no
  readable file), the number of requests sent so far and the events so far. The jar changes
  only where the module writes it: cookies that a response may set are the doing of the
  HTTP library, outside the module. Console output is not modelled.
\<close>

record state =
  st_config :: config
  st_jar :: jar
  st_cache :: "cookies option"
  st_nreq :: nat
  st_trace :: "event list"

definition BASE_URL :: string where
  "BASE_URL = ''https://www.superjob.ru''"

definition API_URL :: string where
  "API_URL = ''https://www.superjob.ru/jsapi3/0.1''"

text \<open>\<^verbatim>\<open>self.session.get\<close> and \<^verbatim>\<open>self.session.post\<close>: one request, one outcome.\<close>

definition send_request :: "env \<Rightarrow> state \<Rightarrow> request \<Rightarrow> outcome \<times> state" where
  "send_request e s r =
     (let out = network e (st_nreq s) (st_jar s) r
      in (out, s\<lparr>st_nreq := Suc (st_nreq s), st_trace := st_trace s @ [EvRequest r out]\<rparr>))"

section \<open>Authentication\<close>

text \<open>\<^verbatim>\<open>check_auth\<close>, lines 260 to 270. \<^verbatim>\<open>"login" in location\<close> is a substring test.\<close>

definition check_auth :: "env \<Rightarrow> state \<Rightarrow> bool \<times> state" where
  "check_auth e s =
     (case send_request e s
             \<lparr>req_method = GET, req_url = BASE_URL @ ''/user/resume/'', req_follow = False,
              req_payload = NoPayload\<rparr> of
        (TransportError msg, s') \<Rightarrow> (False, s')
      | (Responded status location b, s') \<Rightarrow>
          if status = 302 \<and> sublist ''login'' (case location of None \<Rightarrow> [] | Some l \<Rightarrow> l)
          then (False, s')
          else (status = 200, s'))"

text \<open>
  \<^verbatim>\<open>self.session.cookies.set(name, value, domain=".superjob.ru", path="/")\<close>: the cookie
  under this domain, path and name is replaced; \<^verbatim>\<open>requests\<close> removes it when the value is
  \<^verbatim>\<open>None\<close>.
\<close>

definition cookie_set :: "jar \<Rightarrow> string \<Rightarrow> string option \<Rightarrow> jar" where
  "cookie_set j name v = j((''.superjob.ru'', ''/'', name) := v)"

text \<open>
  \<^verbatim>\<open>auth_with_cookies\<close>, lines 66 to 105. The three identity values arrive from
  \<^verbatim>\<open>dict.get\<close> without a default at every call site of the module, so they are optional
  strings.
\<close>

definition auth_with_cookies ::
  "env \<Rightarrow> state \<Rightarrow> string option \<Rightarrow> string option \<Rightarrow> string option \<Rightarrow>
   string \<Rightarrow> string \<Rightarrow> string \<Rightarrow> string \<Rightarrow> bool \<times> state" where
  "auth_with_cookies e s uat sat sask geo geo_confirmed geo_set login_auth_type =
     (let cookies =
            [(''uat'', uat), (''sat'', sat), (''sask'', sask), (''geo'', Some geo),
             (''geoConfirmed'', Some geo_confirmed), (''geoSet'', Some geo_set),
             (''loginAuthType'', Some login_auth_type),
             (''initialGeoConfirmationShow'', Some ''1'')]
      in check_auth e
           (s\<lparr>st_jar := fold (\<lambda>(name, v) j. cookie_set j name v) cookies (st_jar s)\<rparr>))"

text \<open>\<^verbatim>\<open>d.get(key, default)\<close> on a dictionary of cookies.\<close>

definition dict_get :: "cookies \<Rightarrow> string \<Rightarrow> string \<Rightarrow> string" where
  "dict_get d k dflt = (case map_of d k of None \<Rightarrow> dflt | Some v \<Rightarrow> v)"

text \<open>\<^verbatim>\<open>[k for k in required if k not in cookies]\<close>.\<close>

definition missing_required :: "cookies \<Rightarrow> string list" where
  "missing_required d = filter (\<lambda>k. map_of d k = None) [''uat'', ''sat'', ''sask'']"

text \<open>
  The call that the cache path, every browser adapter and the cookie file end with: the
  three identity cookies by \<^verbatim>\<open>get\<close>, the regional ones with their defaults.
\<close>

definition auth_with_dict :: "env \<Rightarrow> state \<Rightarrow> cookies \<Rightarrow> bool \<times> state" where
  "auth_with_dict e s d =
     auth_with_cookies e s (map_of d ''uat'') (map_of d ''sat'') (map_of d ''sask'')
       (dict_get d ''geo'' ''1687'') (dict_get d ''geoConfirmed'' ''1'')
       (dict_get d ''geoSet'' ''1'') (dict_get d ''loginAuthType'' ''applicant'')"

text \<open>\<^verbatim>\<open>_load_cached_cookies\<close> and \<^verbatim>\<open>_save_cookies_to_cache\<close>, lines 107 to 123.\<close>

definition load_cached_cookies :: "state \<Rightarrow> cookies option \<times> state" where
  "load_cached_cookies s = (st_cache s, s\<lparr>st_trace := st_trace s @ [EvLoadCache]\<rparr>)"

definition save_cookies_to_cache :: "env \<Rightarrow> state \<Rightarrow> cookies \<Rightarrow> state" where
  "save_cookies_to_cache e s d =
     s\<lparr>st_cache := (if cache_writable e then Some d else st_cache s),
       st_trace := st_trace s @ [EvSaveCache d]\<rparr>"

text \<open>\<^verbatim>\<open>_auth_with_cached_cookies\<close>, lines 125 to 144.\<close>

definition auth_with_cached_cookies :: "env \<Rightarrow> state \<Rightarrow> bool \<times> state" where
  "auth_with_cached_cookies e s =
     (case load_cached_cookies s of
        (None, s1) \<Rightarrow> (False, s1)
      | (Some cached, s1) \<Rightarrow>
          if cached = [] then (False, s1)
          else if missing_required cached \<noteq> [] then (False, s1)
          else auth_with_dict e s1 cached)"

text \<open>
  The loop over \<^verbatim>\<open>browsers_to_try\<close>, lines 190 to 226. The dictionary is filled from the
  browser's cookies one by one, a later cookie of the same name replacing the earlier value.
  \<^verbatim>\<open>last_error\<close> is only printed.
\<close>

fun try_browsers :: "env \<Rightarrow> (string \<Rightarrow> string + cookies) \<Rightarrow> string list \<Rightarrow> state \<Rightarrow> bool \<times> state" where
  "try_browsers e extract [] s = (False, s)"
| "try_browsers e extract (br # rest) s =
     (let s1 = s\<lparr>st_trace := st_trace s @ [EvExtract br]\<rparr>
      in case extract br of
           Inl msg \<Rightarrow> try_browsers e extract rest s1
         | Inr cj \<Rightarrow>
             (let cookies = fold (\<lambda>(name, v) d. AList.update name v d) cj []
              in if missing_required cookies \<noteq> [] then try_browsers e extract rest s1
                 else case auth_with_dict e s1 cookies of
                        (True, s2) \<Rightarrow> (True, save_cookies_to_cache e s2 cookies)
                      | (False, s2) \<Rightarrow> try_browsers e extract rest s2))"

text \<open>\<^verbatim>\<open>auth_from_browser\<close>, lines 146 to 230.\<close>

definition auth_from_browser :: "env \<Rightarrow> state \<Rightarrow> string \<Rightarrow> bool \<Rightarrow> (py_error + bool) \<times> state" where
  "auth_from_browser e s browser force_refresh =
     (let (cached_ok, s1) =
            (if \<not> force_refresh then auth_with_cached_cookies e s else (False, s))
      in if cached_ok then (Inr True, s1)
         else case browser_cookie3 e of
                None \<Rightarrow> (Inl ImportError, s1)
              | Some extract \<Rightarrow>
                  if browser = ''auto''
                  then (case try_browsers e extract [''firefox'', ''chrome'', ''edge'', ''safari''] s1 of
                          (r, s2) \<Rightarrow> (Inr r, s2))
                  else if browser \<notin> set [''chrome'', ''firefox'', ''edge'', ''safari'']
                  then (Inl ValueError, s1)
                  else (case try_browsers e extract [browser] s1 of (r, s2) \<Rightarrow> (Inr r, s2)))"

text \<open>
  \<^verbatim>\<open>str.strip()\<close> and \<^verbatim>\<open>str.split("=", 1)\<close>. A character is a code point below 256;
  these are the ones Python counts as whitespace there.
\<close>

definition py_isspace :: "char \<Rightarrow> bool" where
  "py_isspace c =
     (let n = (of_char c :: nat)
      in (9 \<le> n \<and> n \<le> 13) \<or> (28 \<le> n \<and> n \<le> 32) \<or> n = 133 \<or> n = 160)"

definition strip :: "string \<Rightarrow> string" where
  "strip s = rev (dropWhile py_isspace (rev (dropWhile py_isspace s)))"

definition split_eq :: "string \<Rightarrow> string \<times> string" where
  "split_eq s = (takeWhile (\<lambda>c. c \<noteq> CHR ''='') s, tl (dropWhile (\<lambda>c. c \<noteq> CHR ''='') s))"

text \<open>The loop over the lines of the cookie file, lines 236 to 242.\<close>

definition parse_cookie_lines :: "string list \<Rightarrow> cookies" where
  "parse_cookie_lines ls =
     fold (\<lambda>raw d.
             let line = strip raw
             in if line \<noteq> [] \<and> CHR ''='' \<in> set line
                then (case split_eq line of (name, v) \<Rightarrow> AList.update (strip name) (strip v) d)
                else d)
          ls []"

text \<open>
  \<^verbatim>\<open>auth_from_file\<close>, lines 232 to 258. A file that cannot be opened raises before
  anything else happens.
\<close>

definition auth_from_file :: "env \<Rightarrow> state \<Rightarrow> string \<Rightarrow> (py_error + bool) \<times> state" where
  "auth_from_file e s filepath =
     (case read_lines e filepath of
        None \<Rightarrow> (Inl FileNotFoundError, s)
      | Some ls \<Rightarrow>
          (let cookies = parse_cookie_lines ls
           in if missing_required cookies \<noteq> [] then (Inl ValueError, s)
              else case auth_with_dict e s cookies of (r, s') \<Rightarrow> (Inr r, s')))"

section \<open>Applications and messages\<close>

text \<open>
  The dictionaries that \<^verbatim>\<open>send_message\<close> and \<^verbatim>\<open>apply_to_vacancy\<close> return. A key that
  the dictionary does not have is \<open>None\<close>, which is also what \<^verbatim>\<open>result.get(key)\<close> reads
  there.
\<close>

record send_result =
  sm_success :: bool
  sm_status_code :: "int option"
  sm_response :: "json option"
  sm_error :: "string option"

record apply_result =
  ar_success :: bool
  ar_status_code :: "int option"
  ar_response :: "json option"
  ar_chat_id :: json
  ar_chat_url :: "string option"
  ar_cover_letter_sent :: "bool option"
  ar_error :: "string option"

text \<open>\<^verbatim>\<open>send_message\<close>, lines 436 to 489.\<close>

definition send_message :: "env \<Rightarrow> state \<Rightarrow> json \<Rightarrow> string \<Rightarrow> send_result \<times> state" where
  "send_message e s chat_id message =
     (case send_request e s
             \<lparr>req_method = POST, req_url = API_URL @ ''/chatMessage/'', req_follow = True,
              req_payload = MessageDoc chat_id message\<rparr> of
        (TransportError msg, s') \<Rightarrow>
          (\<lparr>sm_success = False, sm_status_code = None, sm_response = None,
            sm_error = Some msg\<rparr>, s')
      | (Responded status location b, s') \<Rightarrow>
          (case b of
             BadBody msg \<Rightarrow>
               (\<lparr>sm_success = False, sm_status_code = None, sm_response = None,
                 sm_error = Some msg\<rparr>, s')
           | EmptyBody \<Rightarrow>
               (\<lparr>sm_success = (status = 200 \<or> status = 201), sm_status_code = Some status,
                 sm_response = Some (JDict []), sm_error = None\<rparr>, s')
           | JsonBody j \<Rightarrow>
               (\<lparr>sm_success = (status = 200 \<or> status = 201), sm_status_code = Some status,
                 sm_response = Some j, sm_error = None\<rparr>, s')))"

text \<open>
  \<^verbatim>\<open>apply_to_vacancy\<close>, lines 308 to 413. \<^verbatim>\<open>cover_letter\<close> is an optional string whose
  default is the word \<^verbatim>\<open>default\<close>; \<^verbatim>\<open>self.config.cover_letter\<close> is read when the letter
  is sent.
\<close>

definition apply_to_vacancy ::
  "env \<Rightarrow> state \<Rightarrow> string \<Rightarrow> string \<Rightarrow> string option \<Rightarrow> bool \<Rightarrow> apply_result \<times> state" where
  "apply_to_vacancy e s vacancy_id resume_id cover_letter no_work_experience =
     (let failure = (\<lambda>msg. \<lparr>ar_success = False, ar_status_code = None, ar_response = None,
                            ar_chat_id = JNull, ar_chat_url = None,
                            ar_cover_letter_sent = None, ar_error = Some msg\<rparr>)
      in case send_request e s
                \<lparr>req_method = POST, req_url = API_URL @ ''/cvApplication/'', req_follow = True,
                 req_payload = ApplicationDoc vacancy_id resume_id no_work_experience\<rparr> of
           (TransportError msg, s1) \<Rightarrow> (failure msg, s1)
         | (Responded status location (BadBody msg), s1) \<Rightarrow> (failure msg, s1)
         | (Responded status location b, s1) \<Rightarrow>
             (let response = (case b of JsonBody j \<Rightarrow> j | _ \<Rightarrow> JDict []);
                  result = \<lparr>ar_success = (status = 200 \<or> status = 201),
                            ar_status_code = Some status, ar_response = Some response,
                            ar_chat_id = JNull, ar_chat_url = None,
                            ar_cover_letter_sent = None, ar_error = None\<rparr>
              in if ar_success result \<and> truthy response
                 then (let chat_id = extract_chat_id response;
                           result1 = result\<lparr>ar_chat_id := chat_id\<rparr>;
                           result2 =
                             (if truthy chat_id
                              then result1\<lparr>ar_chat_url :=
                                     Some (BASE_URL @ ''/chat/?chatId='' @ py_str e chat_id)\<rparr>
                              else result1)
                       in if truthy chat_id \<and> cover_letter \<noteq> None \<and> cover_letter \<noteq> Some []
                          then (let letter =
                                      (if cover_letter = Some ''default''
                                       then cfg_cover_letter (st_config s1)
                                       else (case cover_letter of Some l \<Rightarrow> l | None \<Rightarrow> []))
                                in case send_message e s1 chat_id letter of
                                     (msg_result, s2) \<Rightarrow>
                                       (result2\<lparr>ar_cover_letter_sent :=
                                                  Some (sm_success msg_result)\<rparr>, s2))
                          else (result2, s1))
                 else (result, s1)))"

section \<open>Search and the auto-apply driver\<close>

text \<open>\<^verbatim>\<open>search_vacancies\<close>, lines 514 to 574.\<close>

definition search_vacancies :: "env \<Rightarrow> state \<Rightarrow> string \<Rightarrow> int \<Rightarrow> int \<Rightarrow> search_result \<times> state" where
  "search_vacancies e s keywords limit offset =
     (let nothing = \<lparr>sr_total = 0, sr_vacancies = []\<rparr>
      in case send_request e s
                \<lparr>req_method = GET, req_url = API_URL @ ''/vacancy/'', req_follow = True,
                 req_payload = SearchQuery keywords limit offset\<rparr> of
           (TransportError msg, s') \<Rightarrow> (nothing, s')
         | (Responded status location b, s') \<Rightarrow>
             if status = 200
             then (case b of
                     JsonBody j \<Rightarrow>
                       (case parse_search e j of None \<Rightarrow> (nothing, s') | Some r \<Rightarrow> (r, s'))
                   | _ \<Rightarrow> (nothing, s'))
             else (nothing, s'))"

text \<open>The statistics of a run and one record of its \<^verbatim>\<open>results\<close> list.\<close>

record entry =
  en_vacancy_id :: string
  en_title :: string
  en_company :: string
  en_success :: bool
  en_chat_url :: "string option"
  en_cover_letter_sent :: "bool option"
  en_error :: "string option"

record stats =
  total_found :: nat
  applied :: nat
  failed :: nat
  skipped :: nat
  results :: "entry list"

text \<open>
  The loop \<^verbatim>\<open>for page in range(max_pages)\<close>, lines 620 to 635, over the pages still to
  come; \<open>acc\<close> is \<^verbatim>\<open>all_vacancies\<close>.
\<close>

fun fetch_pages ::
  "env \<Rightarrow> string \<Rightarrow> int \<Rightarrow> nat list \<Rightarrow> vacancy list \<Rightarrow> state \<Rightarrow> vacancy list \<times> state" where
  "fetch_pages e kw limit [] acc s = (acc, s)"
| "fetch_pages e kw limit (page # pages) acc s =
     (let offset = int page * limit
      in case search_vacancies e s kw limit offset of
           (search_result, s1) \<Rightarrow>
             (let vacancies = sr_vacancies search_result
              in if vacancies = [] then (acc, s1)
                 else (let acc1 = acc @ vacancies;
                           total = sr_total search_result
                       in if offset + limit \<ge> total then (acc1, s1)
                          else fetch_pages e kw limit pages acc1 s1)))"

text \<open>
  The loop \<^verbatim>\<open>for v in all_vacancies\<close>, lines 639 to 669. It carries the statistics, the
  set \<^verbatim>\<open>applied_ids\<close> and the state.
\<close>

fun apply_each ::
  "env \<Rightarrow> string \<Rightarrow> vacancy list \<Rightarrow> stats \<times> string set \<times> state \<Rightarrow> stats \<times> string set \<times> state" where
  "apply_each e resume_id [] acc = acc"
| "apply_each e resume_id (v # vs) (st, applied_ids, s) =
     (let vid = v_id v
      in if vid \<in> applied_ids
         then apply_each e resume_id vs (st\<lparr>skipped := skipped st + 1\<rparr>, applied_ids, s)
         else case apply_to_vacancy e s vid resume_id (Some ''default'') False of
                (result, s1) \<Rightarrow>
                  (let entry0 = \<lparr>en_vacancy_id = vid, en_title = v_title v,
                                 en_company = v_company v, en_success = ar_success result,
                                 en_chat_url = ar_chat_url result,
                                 en_cover_letter_sent = ar_cover_letter_sent result,
                                 en_error = None\<rparr>
                   in if ar_success result
                      then apply_each e resume_id vs
                             (st\<lparr>applied := applied st + 1, results := results st @ [entry0]\<rparr>,
                              insert vid applied_ids, s1)
                      else apply_each e resume_id vs
                             (st\<lparr>failed := failed st + 1,
                                 results := results st @
                                   [entry0\<lparr>en_error := Some
                                      (case ar_error result of
                                         Some msg \<Rightarrow> msg
                                       | None \<Rightarrow>
                                           py_str e (case ar_status_code result of
                                                       None \<Rightarrow> JNull
                                                     | Some c \<Rightarrow> JInt c))\<rparr>]\<rparr>,
                              insert vid applied_ids, s1)))"

text \<open>The loop \<^verbatim>\<open>for kw in keywords\<close>, lines 615 to 669.\<close>

fun each_keyword ::
  "env \<Rightarrow> string \<Rightarrow> int \<Rightarrow> int \<Rightarrow> string list \<Rightarrow> stats \<times> string set \<times> state \<Rightarrow>
   stats \<times> string set \<times> state" where
  "each_keyword e resume_id limit max_pages [] acc = acc"
| "each_keyword e resume_id limit max_pages (kw # kws) (st, applied_ids, s) =
     (case fetch_pages e kw limit [0..<nat max_pages] [] s of
        (all_vacancies, s1) \<Rightarrow>
          each_keyword e resume_id limit max_pages kws
            (apply_each e resume_id all_vacancies
               (st\<lparr>total_found := total_found st + length all_vacancies\<rparr>, applied_ids, s1)))"

text \<open>
  \<^verbatim>\<open>auto_apply\<close>, lines 576 to 672. An argument left out is \<open>None\<close>; \<^verbatim>\<open>x or y\<close> takes
  the configured value when the argument is \<open>None\<close>, empty or zero. The two error
  dictionaries are the two errors.
\<close>

datatype run_error = NoKeywords | NoResumeId

definition auto_apply ::
  "env \<Rightarrow> state \<Rightarrow> string list option \<Rightarrow> int option \<Rightarrow> int option \<Rightarrow> string option \<Rightarrow>
   (run_error + stats) \<times> state" where
  "auto_apply e s keywords limit max_pages resume_id =
     (let cfg = st_config s;
          keywords1 = (case keywords of None \<Rightarrow> cfg_search_keywords cfg
                       | Some ks \<Rightarrow> if ks = [] then cfg_search_keywords cfg else ks);
          limit1 = (case limit of None \<Rightarrow> cfg_search_limit cfg
                    | Some l \<Rightarrow> if l = 0 then cfg_search_limit cfg else l);
          max_pages1 = (case max_pages of None \<Rightarrow> cfg_max_pages cfg
                        | Some m \<Rightarrow> if m = 0 then cfg_max_pages cfg else m);
          resume_id1 = (case resume_id of None \<Rightarrow> cfg_resume_id cfg
                        | Some r \<Rightarrow> if r = [] then cfg_resume_id cfg else r)
      in if keywords1 = [] then (Inl NoKeywords, s)
         else if resume_id1 = [] then (Inl NoResumeId, s)
         else case each_keyword e resume_id1 limit1 max_pages1 keywords1
                     (\<lparr>total_found = 0, applied = 0, failed = 0, skipped = 0, results = []\<rparr>,
                      {}, s) of
                (st, applied_ids, s') \<Rightarrow> (Inr st, s'))"

section \<open>The vocabulary of the statements\<close>

subsection \<open>JSON documents\<close>

text \<open>
  The value at a path of keys, every step of which is a dictionary that has the key;
  \<^verbatim>\<open>None\<close> for a missing result; a JSON object; a resource of a given type; an item of
  type \<^verbatim>\<open>vacancyResponse\<close> whose id equals a given one; the two relationship paths that
  \<^verbatim>\<open>_extract_chat_id\<close> follows. \<open>dig\<close> is a chain of \<^verbatim>\<open>get\<close> calls with the defaults
  of the source (an empty dictionary at every step but the last), \<open>caught\<close> the handler of
  the \<^verbatim>\<open>try\<close> block; the proofs use them to name the chains.
\<close>

fun at_path :: "json \<Rightarrow> string list \<Rightarrow> json option" where
  "at_path j [] = Some j"
| "at_path (JDict kvs) (k # ks) = (case map_of kvs k of None \<Rightarrow> None | Some v \<Rightarrow> at_path v ks)"
| "at_path _ (k # ks) = None"

definition or_none :: "json option \<Rightarrow> json" where
  "or_none x = (case x of None \<Rightarrow> JNull | Some v \<Rightarrow> v)"

definition is_object :: "json \<Rightarrow> bool" where
  "is_object x = (case x of JDict kvs \<Rightarrow> True | _ \<Rightarrow> False)"

definition has_type :: "string \<Rightarrow> json \<Rightarrow> bool" where
  "has_type t x = (at_path x [''type''] = Some (JStr t))"

definition matches :: "json \<Rightarrow> json \<Rightarrow> bool" where
  "matches vr_id x = (has_type ''vacancyResponse'' x \<and> py_eq (or_none (at_path x [''id''])) vr_id)"

fun dig :: "json \<Rightarrow> string list \<Rightarrow> py_error + json" where
  "dig x [] = Inr x"
| "dig x [k] = py_get x k JNull"
| "dig x (k # ks) = py_bind (py_get x k (JDict [])) (\<lambda>y. dig y ks)"

definition caught :: "py_error + json \<Rightarrow> json" where
  "caught m = (case m of Inl e \<Rightarrow> JNull | Inr v \<Rightarrow> v)"

definition vr_path :: "string list" where
  "vr_path = [''data'', ''relationships'', ''vacancyResponse'', ''data'', ''id'']"

definition chat_path :: "string list" where
  "chat_path = [''relationships'', ''chat'', ''data'', ''id'']"

subsection \<open>Authentication\<close>

text \<open>
  The probe request of \<^verbatim>\<open>check_auth\<close> and the server's answer to it in a given state; the
  eight cookies that \<^verbatim>\<open>auth_with_cookies\<close> writes; the dictionary that the adapter loop
  builds from a browser's cookies.
\<close>

definition probe_request :: request where
  "probe_request =
     \<lparr>req_method = GET, req_url = BASE_URL @ ''/user/resume/'', req_follow = False,
      req_payload = NoPayload\<rparr>"

definition probe_outcome :: "env \<Rightarrow> state \<Rightarrow> outcome" where
  "probe_outcome e s = network e (st_nreq s) (st_jar s) probe_request"

definition supplied ::
  "string option \<Rightarrow> string option \<Rightarrow> string option \<Rightarrow> string \<Rightarrow> string \<Rightarrow> string \<Rightarrow> string \<Rightarrow>
   (string \<times> string option) list" where
  "supplied uat sat sask geo geo_confirmed geo_set login_auth_type =
     [(''uat'', uat), (''sat'', sat), (''sask'', sask), (''geo'', Some geo),
      (''geoConfirmed'', Some geo_confirmed), (''geoSet'', Some geo_set),
      (''loginAuthType'', Some login_auth_type), (''initialGeoConfirmationShow'', Some ''1'')]"

definition dict_of :: "cookies \<Rightarrow> cookies" where
  "dict_of cj = fold (\<lambda>(name, v) d. AList.update name v d) cj []"

text \<open>
  What the adapter loop leaves behind, used in the proofs: when it succeeds, the events end
  with an extraction, its successful probe and the one write of the cache; when it fails,
  nothing was written.
\<close>

definition saved_at_end ::
  "env \<Rightarrow> (string \<Rightarrow> string + cookies) \<Rightarrow> cookies option \<Rightarrow> state \<Rightarrow> event list \<Rightarrow> bool" where
  "saved_at_end e x c0 s' evs =
     (\<exists>pre br loc b cj.
        evs = pre @ [EvExtract br, EvRequest probe_request (Responded 200 loc b),
                     EvSaveCache (dict_of cj)] \<and>
        (\<forall>c. EvSaveCache c \<notin> set pre) \<and> x br = Inr cj \<and>
        st_cache s' = (if cache_writable e then Some (dict_of cj) else c0))"

definition adapters_outcome ::
  "env \<Rightarrow> (string \<Rightarrow> string + cookies) \<Rightarrow> cookies option \<Rightarrow> bool \<Rightarrow> state \<Rightarrow> event list \<Rightarrow> bool" where
  "adapters_outcome e x c0 r s' evs =
     (if r then saved_at_end e x c0 s' evs
      else (\<forall>c. EvSaveCache c \<notin> set evs) \<and> st_cache s' = c0)"

subsection \<open>A world to run the authentication in\<close>

text \<open>
  The server accepts the session whose \<^verbatim>\<open>uat\<close> cookie is \<^verbatim>\<open>good\<close>, redirects an
  \<^verbatim>\<open>expired\<close> one to the login page, answers 403 to a \<^verbatim>\<open>blocked\<close> one and is
  unreachable otherwise. Firefox has no profile, Chrome holds a valid session. One cookie
  file lacks \<^verbatim>\<open>sask\<close>, one is complete.
\<close>

definition auth_network :: "nat \<Rightarrow> jar \<Rightarrow> request \<Rightarrow> outcome" where
  "auth_network n j r =
     (let uat = j (''.superjob.ru'', ''/'', ''uat'')
      in if uat = Some ''good'' then Responded 200 None EmptyBody
         else if uat = Some ''expired'' then Responded 302 (Some ''/auth/login/'') EmptyBody
         else if uat = Some ''blocked'' then Responded 403 None EmptyBody
         else TransportError ''timeout'')"

definition auth_browsers :: "string \<Rightarrow> string + cookies" where
  "auth_browsers br =
     (if br = ''firefox'' then Inl ''no profile''
      else if br = ''chrome''
      then Inr [(''uat'', ''good''), (''sat'', ''s1''), (''sask'', ''k1''), (''geo'', ''4'')]
      else Inl ''unsupported'')"

definition auth_files :: "string \<Rightarrow> string list option" where
  "auth_files f =
     (if f = ''partial.txt'' then Some [''uat=good'', '' sat = s1 '', ''no separator'']
      else if f = ''full.txt'' then Some [''uat=good'', ''sat=s1'', ''sask=k1'']
      else None)"

definition auth_env :: env where
  "auth_env =
     \<lparr>network = auth_network, browser_cookie3 = Some auth_browsers, read_lines = auth_files,
      cache_writable = True, parse_search = (\<lambda>j. None), py_str = (\<lambda>j. [])\<rparr>"

definition jar_with :: "string \<Rightarrow> jar" where
  "jar_with uat = (\<lambda>k. if k = (''.superjob.ru'', ''/'', ''uat'') then Some uat else None)"

definition start :: "jar \<Rightarrow> cookies option \<Rightarrow> state" where
  "start j cache =
     \<lparr>st_config = \<lparr>cfg_browser = ''auto'', cfg_resume_id = ''R'', cfg_search_keywords = [],
                    cfg_search_limit = 20, cfg_max_pages = 1, cfg_cover_letter = []\<rparr>,
      st_jar = j, st_cache = cache, st_nreq = 0, st_trace = []\<rparr>"

subsection \<open>Applications and the driver\<close>

text \<open>
  The three requests of the apply side, as the source builds them; the result that
  \<^verbatim>\<open>search_vacancies\<close> reads from an outcome; an application that succeeds, that is, one
  that \<^verbatim>\<open>apply_to_vacancy\<close> reports with \<^verbatim>\<open>success\<close> true; the chat id an application
  obtains from an outcome (\<^verbatim>\<open>None\<close> when there is none) and the cover letter its argument
  resolves to; the outcome of the application request sent from a state and the state right
  after it.
\<close>

definition search_request :: "string \<Rightarrow> int \<Rightarrow> int \<Rightarrow> request" where
  "search_request kw limit offset =
     \<lparr>req_method = GET, req_url = API_URL @ ''/vacancy/'', req_follow = True,
      req_payload = SearchQuery kw limit offset\<rparr>"

definition apply_request :: "string \<Rightarrow> string \<Rightarrow> bool \<Rightarrow> request" where
  "apply_request vacancy_id resume_id no_work_experience =
     \<lparr>req_method = POST, req_url = API_URL @ ''/cvApplication/'', req_follow = True,
      req_payload = ApplicationDoc vacancy_id resume_id no_work_experience\<rparr>"

definition message_request :: "json \<Rightarrow> string \<Rightarrow> request" where
  "message_request chat_id message =
     \<lparr>req_method = POST, req_url = API_URL @ ''/chatMessage/'', req_follow = True,
      req_payload = MessageDoc chat_id message\<rparr>"

definition search_result_of :: "env \<Rightarrow> outcome \<Rightarrow> search_result" where
  "search_result_of e out =
     (case out of
        Responded status location (JsonBody j) \<Rightarrow>
          (if status = 200
           then (case parse_search e j of
                   None \<Rightarrow> \<lparr>sr_total = 0, sr_vacancies = []\<rparr>
                 | Some r \<Rightarrow> r)
           else \<lparr>sr_total = 0, sr_vacancies = []\<rparr>)
      | _ \<Rightarrow> \<lparr>sr_total = 0, sr_vacancies = []\<rparr>)"

definition apply_ok :: "outcome \<Rightarrow> bool" where
  "apply_ok out =
     (case out of
        Responded status location b \<Rightarrow>
          (status = 200 \<or> status = 201) \<and> (case b of BadBody msg \<Rightarrow> False | _ \<Rightarrow> True)
      | TransportError msg \<Rightarrow> False)"

definition obtained_chat :: "outcome \<Rightarrow> json" where
  "obtained_chat out =
     (case out of
        Responded status location (JsonBody j) \<Rightarrow>
          if (status = 200 \<or> status = 201) \<and> truthy j then extract_chat_id j else JNull
      | _ \<Rightarrow> JNull)"

definition resolved_letter :: "config \<Rightarrow> string option \<Rightarrow> string" where
  "resolved_letter cfg cover_letter =
     (case cover_letter of
        None \<Rightarrow> []
      | Some l \<Rightarrow> if l = ''default'' then cfg_cover_letter cfg else l)"

definition apply_outcome :: "env \<Rightarrow> state \<Rightarrow> string \<Rightarrow> string \<Rightarrow> bool \<Rightarrow> outcome" where
  "apply_outcome e s vid rid nwe =
     network e (st_nreq s) (st_jar s) (apply_request vid rid nwe)"

definition after_apply :: "env \<Rightarrow> state \<Rightarrow> string \<Rightarrow> string \<Rightarrow> bool \<Rightarrow> state" where
  "after_apply e s vid rid nwe =
     s\<lparr>st_nreq := Suc (st_nreq s),
       st_trace := st_trace s @
         [EvRequest (apply_request vid rid nwe) (apply_outcome e s vid rid nwe)]\<rparr>"

text \<open>
  Reading a run off its events: the applications submitted for a vacancy id, and the ids
  of the vacancies that the searches of the run returned, in order, with repetitions.
\<close>

definition is_application :: "string \<Rightarrow> event \<Rightarrow> bool" where
  "is_application vid ev =
     (case ev of
        EvRequest r out \<Rightarrow>
          (case req_payload r of ApplicationDoc v rid nwe \<Rightarrow> v = vid | _ \<Rightarrow> False)
      | _ \<Rightarrow> False)"

definition submissions :: "string \<Rightarrow> event list \<Rightarrow> nat" where
  "submissions vid evs = length (filter (is_application vid) evs)"

definition fetched_of :: "env \<Rightarrow> event \<Rightarrow> string list" where
  "fetched_of e ev =
     (case ev of
        EvRequest r out \<Rightarrow>
          (case req_payload r of
             SearchQuery kw limit offset \<Rightarrow> map v_id (sr_vacancies (search_result_of e out))
           | _ \<Rightarrow> [])
      | _ \<Rightarrow> [])"

definition fetched_ids :: "env \<Rightarrow> event list \<Rightarrow> string list" where
  "fetched_ids e evs = concat (map (fetched_of e) evs)"

text \<open>
  What a stretch of the driver's loops does, used in the proofs: with \<open>ids\<close> the ids it went
  through and \<open>A\<close> the ids applied to before, the events it adds, the one application per
  id that is new, the growth of \<^verbatim>\<open>applied_ids\<close> and of the counters.
\<close>

definition loop_effect ::
  "env \<Rightarrow> stats \<times> string set \<times> state \<Rightarrow> stats \<times> string set \<times> state \<Rightarrow>
   string list \<Rightarrow> event list \<Rightarrow> bool" where
  "loop_effect e before after ids evs =
     (case (before, after) of
        ((st, A, s), (st', A', s')) \<Rightarrow>
          st_trace s' = st_trace s @ evs \<and>
          (\<forall>v. submissions v evs = (if v \<in> set ids - A then 1 else 0)) \<and>
          A' = A \<union> set ids \<and>
          skipped st' = skipped st + (length ids - card (set ids - A)) \<and>
          applied st' + failed st' + skipped st' =
            applied st + failed st + skipped st + length ids \<and>
          length (results st') + (applied st + failed st) =
            length (results st) + (applied st' + failed st'))"







text \<open>
  The keywords and the resume id that a call of \<^verbatim>\<open>auto_apply\<close> works with: the argument,
  or the configured value when the argument is left out or empty.
\<close>

definition effective_keywords :: "config \<Rightarrow> string list option \<Rightarrow> string list" where
  "effective_keywords cfg keywords =
     (case keywords of
        None \<Rightarrow> cfg_search_keywords cfg
      | Some ks \<Rightarrow> if ks = [] then cfg_search_keywords cfg else ks)"

definition effective_resume_id :: "config \<Rightarrow> string option \<Rightarrow> string" where
  "effective_resume_id cfg resume_id =
     (case resume_id of
        None \<Rightarrow> cfg_resume_id cfg
      | Some r \<Rightarrow> if r = [] then cfg_resume_id cfg else r)"

subsection \<open>A world to run the driver in\<close>

text \<open>
  The server answers a search with the keyword and the offset, which the join reads as a
  page: \<^verbatim>\<open>python\<close> has V1 and V2, \<^verbatim>\<open>devops\<close> V2 and V3, both with a total of 2;
  \<^verbatim>\<open>java\<close> has three vacancies on two pages; \<^verbatim>\<open>rust\<close> reports nine and has full pages.
  Every application is accepted with status 201 and opens a chat whose id is the vacancy id
  after a \<^verbatim>\<open>C\<close>; every message is accepted. \<open>job_str\<close> is \<^verbatim>\<open>str()\<close> on the strings and
  on \<^verbatim>\<open>None\<close>, which is all this world asks of it. The configuration has the two
  keywords, a page limit of 2, one page and the cover letter given.
\<close>

definition job_vacancy :: "string \<Rightarrow> vacancy" where
  "job_vacancy i =
     \<lparr>v_id = i, v_title = ''Engineer'', v_company = ''Acme'', v_salary_min = 0,
      v_salary_max = 0, v_url = BASE_URL @ ''/vakansii/'' @ i @ ''.html''\<rparr>"

definition job_chat :: "string \<Rightarrow> outcome" where
  "job_chat vid =
     Responded 201 None
       (JsonBody (JDict [(''included'',
          JList [JDict [(''type'', JStr ''chat''), (''id'', JStr (''C'' @ vid))]])]))"

definition job_network :: "nat \<Rightarrow> jar \<Rightarrow> request \<Rightarrow> outcome" where
  "job_network n j r =
     (case req_payload r of
        SearchQuery kw limit offset \<Rightarrow> Responded 200 None (JsonBody (JList [JStr kw, JInt offset]))
      | ApplicationDoc vid rid nwe \<Rightarrow>
          Responded 201 None
            (JsonBody (JDict [(''included'',
               JList [JDict [(''type'', JStr ''chat''), (''id'', JStr (''C'' @ vid))]])]))
      | MessageDoc c l \<Rightarrow> Responded 200 None EmptyBody
      | NoPayload \<Rightarrow> Responded 200 None EmptyBody)"

definition job_pages :: "json \<Rightarrow> search_result option" where
  "job_pages j =
     (if j = JList [JStr ''python'', JInt 0]
      then Some \<lparr>sr_total = 2, sr_vacancies = [job_vacancy ''V1'', job_vacancy ''V2'']\<rparr>
      else if j = JList [JStr ''devops'', JInt 0]
      then Some \<lparr>sr_total = 2, sr_vacancies = [job_vacancy ''V2'', job_vacancy ''V3'']\<rparr>
      else if j = JList [JStr ''java'', JInt 0]
      then Some \<lparr>sr_total = 3, sr_vacancies = [job_vacancy ''J1'', job_vacancy ''J2'']\<rparr>
      else if j = JList [JStr ''java'', JInt 2]
      then Some \<lparr>sr_total = 3, sr_vacancies = [job_vacancy ''J3'']\<rparr>
      else if j = JList [JStr ''rust'', JInt 0]
      then Some \<lparr>sr_total = 9, sr_vacancies = [job_vacancy ''R1'', job_vacancy ''R2'']\<rparr>
      else if j = JList [JStr ''rust'', JInt 2]
      then Some \<lparr>sr_total = 9, sr_vacancies = [job_vacancy ''R3'', job_vacancy ''R4'']\<rparr>
      else None)"

definition job_str :: "json \<Rightarrow> string" where
  "job_str j = (case j of JStr t \<Rightarrow> t | _ \<Rightarrow> ''None'')"

definition job_env :: env where
  "job_env =
     \<lparr>network = job_network, browser_cookie3 = None, read_lines = (\<lambda>f. None),
      cache_writable = True, parse_search = job_pages, py_str = job_str\<rparr>"

definition job_state :: "string \<Rightarrow> state" where
  "job_state letter =
     \<lparr>st_config = \<lparr>cfg_browser = ''auto'', cfg_resume_id = ''R1'',
                    cfg_search_keywords = [''python'', ''devops''],
                    cfg_search_limit = 2, cfg_max_pages = 1, cfg_cover_letter = letter\<rparr>,
      st_jar = (\<lambda>k. None), st_cache = None, st_nreq = 0, st_trace = []\<rparr>"

definition job_entry :: "string \<Rightarrow> entry" where
  "job_entry vid =
     \<lparr>en_vacancy_id = vid, en_title = ''Engineer'', en_company = ''Acme'', en_success = True,
      en_chat_url = Some (BASE_URL @ ''/chat/?chatId=C'' @ vid),
      en_cover_letter_sent = Some True, en_error = None\<rparr>"

definition job_trace :: "string \<Rightarrow> event list" where
  "job_trace letter =
     [EvRequest (search_request ''python'' 2 0)
        (Responded 200 None (JsonBody (JList [JStr ''python'', JInt 0]))),
      EvRequest (apply_request ''V1'' ''R1'' False) (job_chat ''V1''),
      EvRequest (message_request (JStr ''CV1'') letter) (Responded 200 None EmptyBody),
      EvRequest (apply_request ''V2'' ''R1'' False) (job_chat ''V2''),
      EvRequest (message_request (JStr ''CV2'') letter) (Responded 200 None EmptyBody),
      EvRequest (search_request ''devops'' 2 0)
        (Responded 200 None (JsonBody (JList [JStr ''devops'', JInt 0]))),
      EvRequest (apply_request ''V3'' ''R1'' False) (job_chat ''V3''),
      EvRequest (message_request (JStr ''CV3'') letter) (Responded 200 None EmptyBody)]"

section \<open>Properties of chat-id extraction\<close>

lemma py_bind_Inr [simp]: "py_bind (Inr v) f = f v"
  by (simp add: py_bind_def)

lemma py_bind_Inl [simp]: "py_bind (Inl e) f = Inl e"
  by (simp add: py_bind_def)

lemma py_bind_assoc: "py_bind (py_bind m f) g = py_bind m (\<lambda>x. py_bind (f x) g)"
  by (cases m) simp_all

lemma py_eq_JStr: "py_eq a (JStr s) = (a = JStr s)"
  by (cases a) auto

lemma dig_empty: "ks \<noteq> [] \<Longrightarrow> dig (JDict []) ks = Inr JNull"
  by (induction "JDict []" ks rule: dig.induct) (auto simp: py_bind_def)

lemma dig_at_path: "ks \<noteq> [] \<Longrightarrow> caught (dig x ks) = or_none (at_path x ks)"
proof (induction x ks rule: dig.induct)
  case (1 x)
  then show ?case by simp
next
  case (2 x k)
  then show ?case by (cases x) (auto simp: caught_def or_none_def split: option.splits)
next
  case (3 x k v va)
  then show ?case
    by (cases x) (auto simp: caught_def or_none_def py_bind_def dig_empty split: option.splits)
qed

lemma has_type_dict: "has_type t (JDict kvs) = (map_of kvs ''type'' = Some (JStr t))"
  by (simp add: has_type_def split: option.splits)

lemma has_type_object: "has_type t x \<Longrightarrow> is_object x"
  by (cases x) (simp_all add: has_type_def is_object_def)

lemma is_object_dict: "is_object (JDict kvs)"
  by (simp add: is_object_def)

lemma not_object_get: "\<not> is_object x \<Longrightarrow> py_get x k d = Inl AttributeError"
  by (cases x) (simp_all add: is_object_def)

lemma find_chat_char:
  "find_chat items =
     (if list_all is_object (takeWhile (\<lambda>x. \<not> has_type ''chat'' x) items)
      then Inr (map_option (\<lambda>c. or_none (at_path c [''id''])) (find (has_type ''chat'') items))
      else Inl AttributeError)"
proof (induction items)
  case Nil
  then show ?case by simp
next
  case (Cons a items)
  then show ?case
  proof (cases "is_object a")
    case False
    then have "\<not> has_type ''chat'' a" using has_type_object by blast
    with False show ?thesis by (simp add: not_object_get py_bind_def)
  next
    case True
    then obtain kvs where a: "a = JDict kvs" by (cases a) (simp_all add: is_object_def)
    show ?thesis using Cons
      by (auto simp: a py_bind_def py_eq_JStr has_type_dict is_object_dict or_none_def split: option.splits)
  qed
qed

lemma matches_dict:
  "matches vr_id (JDict kvs) =
     (map_of kvs ''type'' = Some (JStr ''vacancyResponse'') \<and>
      py_eq (case map_of kvs ''id'' of None \<Rightarrow> JNull | Some v \<Rightarrow> v) vr_id)"
  by (simp add: matches_def has_type_dict or_none_def split: option.splits)

lemma find_vacancy_response_step:
  "find_vacancy_response vr_id (JDict kvs # rest) =
     (if matches vr_id (JDict kvs)
      then py_bind (dig (JDict kvs) chat_path) (\<lambda>c. Inr (Some c))
      else find_vacancy_response vr_id rest)"
proof (cases "matches vr_id (JDict kvs)")
  case True
  then have t: "map_of kvs ''type'' = Some (JStr ''vacancyResponse'')"
    and i: "py_eq (case map_of kvs ''id'' of None \<Rightarrow> JNull | Some v \<Rightarrow> v) vr_id"
    by (simp_all add: matches_dict)
  have "find_vacancy_response vr_id (JDict kvs # rest) =
          py_bind (dig (JDict kvs) chat_path) (\<lambda>c. Inr (Some c))"
    unfolding find_vacancy_response.simps chat_path_def dig.simps py_get.simps py_bind_Inr
      py_bind_assoc
    using t i by simp
  with True show ?thesis by simp
next
  case False
  then have "find_vacancy_response vr_id (JDict kvs # rest) = find_vacancy_response vr_id rest"
    by (auto simp: matches_dict py_eq_JStr split: option.splits)
  with False show ?thesis by simp
qed

lemma find_vacancy_response_char:
  "list_all is_object items \<Longrightarrow>
   find_vacancy_response vr_id items =
     (case find (matches vr_id) items of
        None \<Rightarrow> Inr None
      | Some m \<Rightarrow> py_bind (dig m chat_path) (\<lambda>c. Inr (Some c)))"
proof (induction items)
  case Nil
  then show ?case by simp
next
  case (Cons a items)
  then obtain kvs where a: "a = JDict kvs" by (cases a) (simp_all add: is_object_def)
  show ?case using Cons unfolding a find_vacancy_response_step by simp
qed

lemma extract_chat_id_try_unfold:
  "extract_chat_id_try (JDict kvs) =
     py_bind (py_iter (case map_of kvs ''included'' of None \<Rightarrow> JList [] | Some v \<Rightarrow> v)) (\<lambda>items.
     py_bind (find_chat items) (\<lambda>found.
       case found of
         Some i \<Rightarrow> Inr i
       | None \<Rightarrow>
           py_bind (dig (JDict kvs) vr_path) (\<lambda>vr_id.
             if truthy vr_id
             then py_bind (find_vacancy_response vr_id items) (\<lambda>found2.
                    case found2 of Some c \<Rightarrow> Inr c | None \<Rightarrow> Inr JNull)
             else Inr JNull)))"
  unfolding extract_chat_id_try_def vr_path_def dig.simps py_get.simps py_bind_Inr py_bind_assoc
  by (rule refl)

lemma extract_chat_first:
  assumes "map_of kvs ''included'' = Some (JList items)"
    and "list_all is_object (takeWhile (\<lambda>x. \<not> has_type ''chat'' x) items)"
    and "find (has_type ''chat'') items = Some c"
  shows "extract_chat_id (JDict kvs) = or_none (at_path c [''id''])"
  using assms
  by (simp add: extract_chat_id_def extract_chat_id_try_unfold find_chat_char py_bind_def)

lemma takeWhile_no_chat:
  "find (has_type ''chat'') items = None \<Longrightarrow> takeWhile (\<lambda>x. \<not> has_type ''chat'' x) items = items"
  by (induction items) (auto split: if_splits)

lemma extract_chat_second:
  assumes "map_of kvs ''included'' = Some (JList items)"
    and "list_all is_object items"
    and "find (has_type ''chat'') items = None"
    and "at_path (JDict kvs) vr_path = Some vr_id"
    and "truthy vr_id"
    and "find (matches vr_id) items = Some m"
  shows "extract_chat_id (JDict kvs) = or_none (at_path m chat_path)"
proof -
  have ne: "vr_path \<noteq> []" "chat_path \<noteq> []" by (simp_all add: vr_path_def chat_path_def)
  have "caught (dig (JDict kvs) vr_path) = vr_id"
    using dig_at_path [OF ne(1), of "JDict kvs"] assms(4) by (simp add: or_none_def)
  with assms(5) have d: "dig (JDict kvs) vr_path = Inr vr_id"
    by (cases "dig (JDict kvs) vr_path") (auto simp: caught_def)
  have "extract_chat_id (JDict kvs) = caught (dig m chat_path)"
    using assms d
    by (cases "dig m chat_path")
       (simp_all add: extract_chat_id_def extract_chat_id_try_unfold find_chat_char
          takeWhile_no_chat find_vacancy_response_char caught_def)
  then show ?thesis using dig_at_path [OF ne(2)] by simp
qed

lemma find_chat_non_objects:
  "xs \<noteq> [] \<Longrightarrow> \<not> is_object (hd xs) \<Longrightarrow> find_chat xs = Inl AttributeError"
  by (cases xs) (simp_all add: not_object_get)

lemma extract_chat_no_list:
  assumes "\<And>items. map_of kvs ''included'' \<noteq> Some (JList items)"
  shows "extract_chat_id (JDict kvs) = JNull"
proof -
  let ?inc = "case map_of kvs ''included'' of None \<Rightarrow> JList [] | Some v \<Rightarrow> v"
  have e: "\<And>xs. py_iter ?inc = Inr xs \<Longrightarrow> xs = [] \<or> \<not> is_object (hd xs)"
    using assms
    by (cases "map_of kvs ''included''"; cases ?inc)
       (auto simp: is_object_def hd_map)
  show ?thesis
  proof (cases "py_iter ?inc")
    case (Inl a)
    then show ?thesis by (simp add: extract_chat_id_def extract_chat_id_try_unfold)
  next
    case (Inr xs)
    show ?thesis
    proof (cases "xs = []")
      case True
      with Inr show ?thesis
        by (cases "dig (JDict kvs) vr_path")
           (simp_all add: extract_chat_id_def extract_chat_id_try_unfold)
    next
      case False
      with e [OF Inr] Inr show ?thesis
        by (simp add: extract_chat_id_def extract_chat_id_try_unfold find_chat_non_objects)
    qed
  qed
qed

lemma extract_chat_otherwise:
  assumes "extract_chat_id r \<noteq> JNull"
  shows "\<exists>kvs items. r = JDict kvs \<and> map_of kvs ''included'' = Some (JList items) \<and>
           list_all is_object (takeWhile (\<lambda>x. \<not> has_type ''chat'' x) items) \<and>
           (find (has_type ''chat'') items \<noteq> None \<or>
            (\<exists>vr_id. at_path r vr_path = Some vr_id \<and> truthy vr_id \<and>
               find (matches vr_id) items \<noteq> None))"
proof -
  obtain kvs where r: "r = JDict kvs"
    using assms by (cases r) (simp_all add: extract_chat_id_def extract_chat_id_try_def)
  obtain items where inc: "map_of kvs ''included'' = Some (JList items)"
    using assms extract_chat_no_list [of kvs] unfolding r by blast
  have objs: "list_all is_object (takeWhile (\<lambda>x. \<not> has_type ''chat'' x) items)"
    using assms unfolding r
    by (auto simp: extract_chat_id_def extract_chat_id_try_unfold inc find_chat_char
          split: if_splits)
  have "find (has_type ''chat'') items \<noteq> None \<or>
        (\<exists>vr_id. at_path r vr_path = Some vr_id \<and> truthy vr_id \<and>
           find (matches vr_id) items \<noteq> None)"
  proof (cases "find (has_type ''chat'') items")
    case (Some c)
    then show ?thesis by simp
  next
    case None
    then have all_obj: "list_all is_object items"
      using objs by (simp add: takeWhile_no_chat)
    have ne: "vr_path \<noteq> []" by (simp add: vr_path_def)
    obtain v where d: "dig (JDict kvs) vr_path = Inr v" and tv: "truthy v"
      and f: "find (matches v) items \<noteq> None"
      using assms unfolding r
      by (cases "dig (JDict kvs) vr_path")
         (auto simp: extract_chat_id_def extract_chat_id_try_unfold inc find_chat_char objs None
            find_vacancy_response_char all_obj split: if_splits option.splits)
    have "or_none (at_path (JDict kvs) vr_path) = v"
      using dig_at_path [OF ne, of "JDict kvs"] d by (simp add: caught_def)
    moreover have "v \<noteq> JNull" using tv by auto
    ultimately have "at_path (JDict kvs) vr_path = Some v"
      by (cases "at_path (JDict kvs) vr_path") (simp_all add: or_none_def)
    with tv f show ?thesis unfolding r by blast
  qed
  with r inc objs show ?thesis by blast
qed

text \<open>
  C1, as the code has it. For a response dictionary whose \<^verbatim>\<open>included\<close> is a list:
  (a) when the items up to the first resource of type \<^verbatim>\<open>chat\<close> are all objects, the result
  is that resource's id (\<^verbatim>\<open>None\<close> when it has none);
  (b) when all items are objects, none of type \<^verbatim>\<open>chat\<close>, the primary resource's
  \<^verbatim>\<open>vacancyResponse\<close> relationship id is reachable and truthy, and an item of type
  \<^verbatim>\<open>vacancyResponse\<close> has an equal id, the result is the \<^verbatim>\<open>chat\<close> relationship id of the
  first such item (\<^verbatim>\<open>None\<close> when that path is absent or malformed);
  (c) in every other case, for every value whatsoever, the result is \<^verbatim>\<open>None\<close>;
  (d) an exception raised inside the \<^verbatim>\<open>try\<close> block ends as \<^verbatim>\<open>None\<close>, never as a raise.
\<close>

theorem extract_chat_id_policy:
  "(map_of kvs ''included'' = Some (JList items) \<and>
    list_all is_object (takeWhile (\<lambda>x. \<not> has_type ''chat'' x) items) \<and>
    find (has_type ''chat'') items = Some c
      \<longrightarrow> extract_chat_id (JDict kvs) = or_none (at_path c [''id''])) \<and>
   (map_of kvs ''included'' = Some (JList items) \<and>
    list_all is_object items \<and>
    find (has_type ''chat'') items = None \<and>
    at_path (JDict kvs) vr_path = Some vr_id \<and> truthy vr_id \<and>
    find (matches vr_id) items = Some m
      \<longrightarrow> extract_chat_id (JDict kvs) = or_none (at_path m chat_path)) \<and>
   (extract_chat_id r \<noteq> JNull
      \<longrightarrow> (\<exists>kvs' items'. r = JDict kvs' \<and> map_of kvs' ''included'' = Some (JList items') \<and>
             list_all is_object (takeWhile (\<lambda>x. \<not> has_type ''chat'' x) items') \<and>
             (find (has_type ''chat'') items' \<noteq> None \<or>
              (\<exists>v. at_path r vr_path = Some v \<and> truthy v \<and>
                 find (matches v) items' \<noteq> None)))) \<and>
   (extract_chat_id_try r = Inl e \<longrightarrow> extract_chat_id r = JNull)"
proof (intro conjI impI)
  show "extract_chat_id_try r = Inl e \<Longrightarrow> extract_chat_id r = JNull"
    by (simp add: extract_chat_id_def)
qed (use extract_chat_first extract_chat_second extract_chat_otherwise in blast)+

theorem extract_chat_id_policy_witness:
  "extract_chat_id
     (JDict [(''included'',
        JList [JDict [(''type'', JStr ''vacancy''), (''id'', JStr ''V1'')],
               JDict [(''type'', JStr ''chat''), (''id'', JStr ''C1'')]])]) = JStr ''C1'' \<and>
   extract_chat_id
     (JDict [(''data'', JDict [(''relationships'',
                JDict [(''vacancyResponse'', JDict [(''data'', JDict [(''id'', JStr ''R1'')])])])]),
             (''included'',
        JList [JDict [(''type'', JStr ''vacancyResponse''), (''id'', JStr ''R1''),
                      (''relationships'',
                         JDict [(''chat'', JDict [(''data'', JDict [(''id'', JStr ''C9'')])])])]])])
     = JStr ''C9'' \<and>
   extract_chat_id (JList []) = JNull \<and>
   extract_chat_id (JInt 5) = JNull"
proof -
  let ?v = "JDict [(''type'', JStr ''vacancy''), (''id'', JStr ''V1'')]"
  let ?c = "JDict [(''type'', JStr ''chat''), (''id'', JStr ''C1'')]"
  let ?k1 = "[(''included'', JList [?v, ?c])]"
  let ?m = "JDict [(''type'', JStr ''vacancyResponse''), (''id'', JStr ''R1''),
                   (''relationships'',
                      JDict [(''chat'', JDict [(''data'', JDict [(''id'', JStr ''C9'')])])])]"
  let ?k2 = "[(''data'', JDict [(''relationships'',
                JDict [(''vacancyResponse'', JDict [(''data'', JDict [(''id'', JStr ''R1'')])])])]),
              (''included'', JList [?m])]"
  have a: "map_of ?k1 ''included'' = Some (JList [?v, ?c]) \<and>
           list_all is_object (takeWhile (\<lambda>x. \<not> has_type ''chat'' x) [?v, ?c]) \<and>
           find (has_type ''chat'') [?v, ?c] = Some ?c"
    by (simp add: has_type_dict is_object_dict)
  have a': "or_none (at_path ?c [''id'']) = JStr ''C1''"
    by (simp add: or_none_def)
  have b: "map_of ?k2 ''included'' = Some (JList [?m]) \<and>
           list_all is_object [?m] \<and>
           find (has_type ''chat'') [?m] = None \<and>
           at_path (JDict ?k2) vr_path = Some (JStr ''R1'') \<and> truthy (JStr ''R1'') \<and>
           find (matches (JStr ''R1'')) [?m] = Some ?m"
    by (simp add: has_type_dict is_object_dict matches_dict vr_path_def)
  have b': "or_none (at_path ?m chat_path) = JStr ''C9''"
    by (simp add: or_none_def chat_path_def)
  have c: "\<not> (\<exists>kvs items. JList [] = JDict kvs \<and> map_of kvs ''included'' = Some (JList items) \<and>
             list_all is_object (takeWhile (\<lambda>x. \<not> has_type ''chat'' x) items) \<and>
             (find (has_type ''chat'') items \<noteq> None \<or>
              (\<exists>v. at_path (JList []) vr_path = Some v \<and> truthy v \<and>
                 find (matches v) items \<noteq> None)))"
    by simp
  have d: "extract_chat_id_try (JInt 5) = Inl AttributeError"
    by (simp add: extract_chat_id_try_def)
  have r1: "extract_chat_id (JDict ?k1) = or_none (at_path ?c [''id''])"
    using extract_chat_id_policy [of ?k1 "[?v, ?c]" ?c, THEN conjunct1, THEN mp, OF a] .
  have r2: "extract_chat_id (JDict ?k2) = or_none (at_path ?m chat_path)"
    using extract_chat_id_policy [of ?k2 "[?m]" _ "JStr ''R1''" ?m, THEN conjunct2,
        THEN conjunct1, THEN mp, OF b] .
  have r3: "extract_chat_id (JList []) = JNull"
  proof (rule ccontr)
    assume "extract_chat_id (JList []) \<noteq> JNull"
    from extract_chat_id_policy [of _ _ _ _ _ "JList []", THEN conjunct2, THEN conjunct2,
        THEN conjunct1, THEN mp, OF this]
    show False by (rule notE [OF c])
  qed
  have r4: "extract_chat_id (JInt 5) = JNull"
    using extract_chat_id_policy [of _ _ _ _ _ "JInt 5" AttributeError, THEN conjunct2,
        THEN conjunct2, THEN conjunct2, THEN mp, OF d] .
  show ?thesis
    unfolding r1 r2 r3 r4 a' b' by simp
qed

text \<open>
  C1 as stated fails twice. A response whose \<^verbatim>\<open>included\<close> array holds \<^verbatim>\<open>null\<close> before a
  resource of type \<^verbatim>\<open>chat\<close> with id \<^verbatim>\<open>C1\<close> yields no id: \<^verbatim>\<open>None.get\<close> raises inside the
  \<^verbatim>\<open>try\<close> block. And a primary resource whose \<^verbatim>\<open>vacancyResponse\<close> relationship id is the
  empty string, matched by an included item with a \<^verbatim>\<open>chat\<close> relationship id \<^verbatim>\<open>C9\<close>,
  yields no id: the guard \<^verbatim>\<open>if vr_id:\<close> skips the second loop.
\<close>

theorem extract_chat_id_counterexample:
  "find (has_type ''chat'')
     [JNull, JDict [(''type'', JStr ''chat''), (''id'', JStr ''C1'')]]
     = Some (JDict [(''type'', JStr ''chat''), (''id'', JStr ''C1'')]) \<and>
   extract_chat_id
     (JDict [(''included'',
        JList [JNull, JDict [(''type'', JStr ''chat''), (''id'', JStr ''C1'')]])]) = JNull \<and>
   extract_chat_id
     (JDict [(''data'', JDict [(''relationships'',
                JDict [(''vacancyResponse'', JDict [(''data'', JDict [(''id'', JStr [])])])])]),
             (''included'',
        JList [JDict [(''type'', JStr ''vacancyResponse''), (''id'', JStr []),
                      (''relationships'',
                         JDict [(''chat'', JDict [(''data'', JDict [(''id'', JStr ''C9'')])])])]])])
     = JNull"
  by (simp add: extract_chat_id_def extract_chat_id_try_def has_type_def)

section \<open>Properties of the authentication\<close>

subsection \<open>The probe\<close>

lemma check_auth_state:
  "snd (check_auth e s) =
     s\<lparr>st_nreq := Suc (st_nreq s),
       st_trace := st_trace s @ [EvRequest probe_request (probe_outcome e s)]\<rparr>"
  by (simp add: check_auth_def send_request_def probe_outcome_def probe_request_def Let_def
      split: outcome.splits)

lemma check_auth_result:
  "fst (check_auth e s) = (\<exists>loc b. probe_outcome e s = Responded 200 loc b)"
  by (auto simp: check_auth_def send_request_def probe_outcome_def probe_request_def Let_def
      split: outcome.splits)

text \<open>
  C6. \<^verbatim>\<open>check_auth\<close> sends one request, a GET of the page \<^verbatim>\<open>/user/resume/\<close> that does
  not follow redirects, and answers \<^verbatim>\<open>True\<close> exactly when a response arrives whose status
  is 200. A redirect (a status from 300 to 399) whose \<^verbatim>\<open>Location\<close> contains \<^verbatim>\<open>login\<close>, any
  other status but 200 and a failure of the transport all answer \<^verbatim>\<open>False\<close>; the function
  returns a value in every case, the exception of the transport being one of the outcomes.
\<close>

theorem check_auth_probe:
  "st_trace (snd (check_auth e s)) = st_trace s @ [EvRequest probe_request (probe_outcome e s)] \<and>
   req_method probe_request = GET \<and> req_url probe_request = BASE_URL @ ''/user/resume/'' \<and>
   \<not> req_follow probe_request \<and>
   fst (check_auth e s) = (\<exists>loc b. probe_outcome e s = Responded 200 loc b) \<and>
   (probe_outcome e s = Responded status (Some loc) b \<and> 300 \<le> status \<and> status < 400 \<and>
    sublist ''login'' loc \<longrightarrow> \<not> fst (check_auth e s)) \<and>
   (probe_outcome e s = Responded status l b \<and> status \<noteq> 200 \<longrightarrow> \<not> fst (check_auth e s)) \<and>
   (probe_outcome e s = TransportError msg \<longrightarrow> \<not> fst (check_auth e s))"
  by (auto simp: check_auth_state check_auth_result probe_request_def)

theorem check_auth_probe_witness:
  "\<not> fst (check_auth auth_env (start (jar_with ''expired'') None)) \<and>
   \<not> fst (check_auth auth_env (start (jar_with ''blocked'') None)) \<and>
   \<not> fst (check_auth auth_env (start (jar_with ''offline'') None)) \<and>
   fst (check_auth auth_env (start (jar_with ''good'') None))"
proof -
  have a: "probe_outcome auth_env (start (jar_with ''expired'') None)
             = Responded 302 (Some ''/auth/login/'') EmptyBody \<and> (300::int) \<le> 302 \<and>
           (302::int) < 400 \<and> sublist ''login'' ''/auth/login/''"
    by (simp add: probe_outcome_def auth_env_def auth_network_def start_def jar_with_def
        sublist_Cons_right)
  have b: "probe_outcome auth_env (start (jar_with ''blocked'') None)
             = Responded 403 None EmptyBody \<and> (403::int) \<noteq> 200"
    by (simp add: probe_outcome_def auth_env_def auth_network_def start_def jar_with_def)
  have c: "probe_outcome auth_env (start (jar_with ''offline'') None) = TransportError ''timeout''"
    by (simp add: probe_outcome_def auth_env_def auth_network_def start_def jar_with_def)
  have d: "\<exists>loc b. probe_outcome auth_env (start (jar_with ''good'') None) = Responded 200 loc b"
    by (simp add: probe_outcome_def auth_env_def auth_network_def start_def jar_with_def)
  note t = check_auth_probe [THEN conjunct2, THEN conjunct2, THEN conjunct2, THEN conjunct2]
  have r1: "\<not> fst (check_auth auth_env (start (jar_with ''expired'') None))"
    using t [THEN conjunct2, THEN conjunct1, THEN mp, OF a] .
  have r2: "\<not> fst (check_auth auth_env (start (jar_with ''blocked'') None))"
    using t [THEN conjunct2, THEN conjunct2, THEN conjunct1, THEN mp, OF b] .
  have r3: "\<not> fst (check_auth auth_env (start (jar_with ''offline'') None))"
    using t [THEN conjunct2, THEN conjunct2, THEN conjunct2, THEN mp, OF c] .
  have r4: "fst (check_auth auth_env (start (jar_with ''good'') None))"
    using t [THEN conjunct1, of auth_env "start (jar_with ''good'') None"] d by simp
  from r1 r2 r3 r4 show ?thesis by simp
qed

subsection \<open>The cookie jar\<close>

lemma fold_cookie_set:
  "distinct (map fst cs) \<Longrightarrow>
   fold (\<lambda>(name, v) j. cookie_set j name v) cs j0 (d, p, n) =
     (if d = ''.superjob.ru'' \<and> p = ''/'' \<and> n \<in> fst ` set cs
      then (case map_of cs n of None \<Rightarrow> None | Some v \<Rightarrow> v)
      else j0 (d, p, n))"
proof (induction cs arbitrary: j0)
  case Nil
  then show ?case by simp
next
  case (Cons a cs)
  obtain name v where a: "a = (name, v)" by (cases a)
  from Cons.prems have nin: "name \<notin> fst ` set cs" and dis: "distinct (map fst cs)"
    by (simp_all add: a)
  show ?case
    unfolding a using Cons.IH [OF dis, of "cookie_set j0 name v"] nin
    by (auto simp: cookie_set_def split: option.splits)
qed

lemma auth_with_cookies_jar_eq:
  "st_jar (snd (auth_with_cookies e s uat sat sask geo gc gs lat)) =
     fold (\<lambda>(name, v) j. cookie_set j name v) (supplied uat sat sask geo gc gs lat) (st_jar s)"
  by (simp add: auth_with_cookies_def check_auth_state supplied_def Let_def)

text \<open>
  C9, as the code has it. \<^verbatim>\<open>auth_with_cookies\<close> writes the eight cookies \<^verbatim>\<open>uat\<close>,
  \<^verbatim>\<open>sat\<close>, \<^verbatim>\<open>sask\<close>, \<^verbatim>\<open>geo\<close>, \<^verbatim>\<open>geoConfirmed\<close>, \<^verbatim>\<open>geoSet\<close>, \<^verbatim>\<open>loginAuthType\<close> and
  \<^verbatim>\<open>initialGeoConfirmationShow\<close> under the domain \<^verbatim>\<open>.superjob.ru\<close> and the path \<^verbatim>\<open>/\<close>,
  each with the value supplied (a value \<^verbatim>\<open>None\<close> removes the cookie); every other cookie
  of the jar, under any domain, path and name, is what it was before the call.
\<close>

theorem auth_with_cookies_jar:
  "st_jar (snd (auth_with_cookies e s uat sat sask geo gc gs lat)) (d, p, n) =
     (if d = ''.superjob.ru'' \<and> p = ''/'' \<and>
         n \<in> set [''uat'', ''sat'', ''sask'', ''geo'', ''geoConfirmed'', ''geoSet'',
                   ''loginAuthType'', ''initialGeoConfirmationShow'']
      then (case map_of (supplied uat sat sask geo gc gs lat) n of
              None \<Rightarrow> None | Some v \<Rightarrow> v)
      else st_jar s (d, p, n))"
proof -
  have dis: "distinct (map fst (supplied uat sat sask geo gc gs lat))"
    by (simp add: supplied_def)
  have names: "fst ` set (supplied uat sat sask geo gc gs lat) =
      set [''uat'', ''sat'', ''sask'', ''geo'', ''geoConfirmed'', ''geoSet'',
           ''loginAuthType'', ''initialGeoConfirmationShow'']"
    by (simp add: supplied_def)
  show ?thesis
    unfolding auth_with_cookies_jar_eq fold_cookie_set [OF dis] names ..
qed

theorem auth_with_cookies_jar_witness:
  "st_jar (snd (auth_with_cookies auth_env (start (jar_with ''expired'') None)
       (Some ''good'') (Some ''s1'') None ''1687'' ''1'' ''1'' ''applicant''))
     (''.superjob.ru'', ''/'', ''uat'') = Some ''good'' \<and>
   st_jar (snd (auth_with_cookies auth_env (start (jar_with ''expired'') None)
       (Some ''good'') (Some ''s1'') None ''1687'' ''1'' ''1'' ''applicant''))
     (''.superjob.ru'', ''/'', ''sask'') = None \<and>
   st_jar (snd (auth_with_cookies auth_env (start (jar_with ''expired'') None)
       (Some ''good'') (Some ''s1'') None ''1687'' ''1'' ''1'' ''applicant''))
     (''www.superjob.ru'', ''/'', ''uat'') = None"
  unfolding auth_with_cookies_jar
  by (simp add: supplied_def start_def jar_with_def)

text \<open>
  C9 as stated fails: a cookie \<^verbatim>\<open>tracker\<close> that the jar held before the call, and that the
  call does not supply, is still in the jar after it.
\<close>

theorem auth_with_cookies_keeps_other_cookies:
  "st_jar (snd (auth_with_cookies auth_env
       (start (\<lambda>k. if k = (''.superjob.ru'', ''/'', ''tracker'') then Some ''old'' else None) None)
       (Some ''good'') (Some ''s1'') (Some ''k1'') ''1687'' ''1'' ''1'' ''applicant''))
     (''.superjob.ru'', ''/'', ''tracker'') = Some ''old''"
  by (simp add: auth_with_cookies_jar_eq supplied_def cookie_set_def start_def)

subsection \<open>Cookie sets that lack an identity cookie\<close>

lemma missing_required_iff:
  "(missing_required d \<noteq> []) = (\<exists>k \<in> set [''uat'', ''sat'', ''sask'']. map_of d k = None)"
  by (auto simp: missing_required_def filter_empty_conv)

text \<open>
  C5, as the code has it. \<^verbatim>\<open>auth_from_file\<close> on a file whose lines give no value to one
  of \<^verbatim>\<open>uat\<close>, \<^verbatim>\<open>sat\<close>, \<^verbatim>\<open>sask\<close> raises \<^verbatim>\<open>ValueError\<close> and leaves the state as it was:
  no request was sent, nothing was written. \<^verbatim>\<open>auth_with_cookies\<close> makes no such check: for
  every identity value it is given, an absent one (\<^verbatim>\<open>None\<close>) included, it writes the jar
  and sends the probe, exactly one request.
\<close>

theorem identity_cookie_checks:
  "(k \<in> set [''uat'', ''sat'', ''sask''] \<and> read_lines e filepath = Some ls \<and>
    map_of (parse_cookie_lines ls) k = None
      \<longrightarrow> auth_from_file e s filepath = (Inl ValueError, s)) \<and>
   st_trace (snd (auth_with_cookies e s uat sat sask geo gc gs lat)) =
     st_trace s @
       [EvRequest probe_request
          (probe_outcome e
             (s\<lparr>st_jar := fold (\<lambda>(name, v) j. cookie_set j name v)
                              (supplied uat sat sask geo gc gs lat) (st_jar s)\<rparr>))] \<and>
   st_nreq (snd (auth_with_cookies e s uat sat sask geo gc gs lat)) = Suc (st_nreq s)"
proof (intro conjI impI)
  assume a: "k \<in> set [''uat'', ''sat'', ''sask''] \<and> read_lines e filepath = Some ls \<and>
    map_of (parse_cookie_lines ls) k = None"
  then have "missing_required (parse_cookie_lines ls) \<noteq> []"
    unfolding missing_required_iff by blast
  with a show "auth_from_file e s filepath = (Inl ValueError, s)"
    by (simp add: auth_from_file_def)
next
  show "st_trace (snd (auth_with_cookies e s uat sat sask geo gc gs lat)) =
     st_trace s @
       [EvRequest probe_request
          (probe_outcome e
             (s\<lparr>st_jar := fold (\<lambda>(name, v) j. cookie_set j name v)
                              (supplied uat sat sask geo gc gs lat) (st_jar s)\<rparr>))]"
    by (simp add: auth_with_cookies_def check_auth_state supplied_def Let_def)
next
  show "st_nreq (snd (auth_with_cookies e s uat sat sask geo gc gs lat)) = Suc (st_nreq s)"
    by (simp add: auth_with_cookies_def check_auth_state Let_def)
qed

lemma parse_ex: "parse_cookie_lines [''uat=good'', '' sat = s1 '', ''no separator''] = [(''uat'', ''good''), (''sat'', ''s1'')]"
  by (simp add: parse_cookie_lines_def strip_def py_isspace_def split_eq_def)

theorem identity_cookie_checks_witness:
  "auth_from_file auth_env (start (\<lambda>k. None) None) ''partial.txt''
     = (Inl ValueError, start (\<lambda>k. None) None) \<and>
   st_trace (snd (auth_with_cookies auth_env (start (\<lambda>k. None) None)
       (Some ''good'') (Some ''s1'') None ''1687'' ''1'' ''1'' ''applicant'')) =
     [EvRequest probe_request (Responded 200 None EmptyBody)] \<and>
   st_nreq (snd (auth_with_cookies auth_env (start (\<lambda>k. None) None)
       (Some ''good'') (Some ''s1'') None ''1687'' ''1'' ''1'' ''applicant'')) = Suc 0"
proof -
  have b: "''sask'' \<in> set [''uat'', ''sat'', ''sask''] \<and>
           read_lines auth_env ''partial.txt''
             = Some [''uat=good'', '' sat = s1 '', ''no separator''] \<and>
           map_of (parse_cookie_lines [''uat=good'', '' sat = s1 '', ''no separator'']) ''sask''
             = None"
    by (simp add: auth_env_def auth_files_def parse_ex)
  have 1: "auth_from_file auth_env (start (\<lambda>k. None) None) ''partial.txt''
             = (Inl ValueError, start (\<lambda>k. None) None)"
    using identity_cookie_checks [THEN conjunct1, THEN mp, OF b] .
  note 2 = identity_cookie_checks [THEN conjunct2, THEN conjunct1,
      of auth_env "start (\<lambda>k. None) None" "Some ''good''" "Some ''s1''" None
         "''1687''" "''1''" "''1''" "''applicant''"]
  note 3 = identity_cookie_checks [THEN conjunct2, THEN conjunct2,
      of auth_env "start (\<lambda>k. None) None" "Some ''good''" "Some ''s1''" None
         "''1687''" "''1''" "''1''" "''applicant''"]
  have o: "probe_outcome auth_env
             ((start (\<lambda>k. None) None)
                \<lparr>st_jar := fold (\<lambda>(name, v) j. cookie_set j name v)
                    (supplied (Some ''good'') (Some ''s1'') None ''1687'' ''1'' ''1''
                       ''applicant'')
                    (st_jar (start (\<lambda>k. None) None))\<rparr>) = Responded 200 None EmptyBody"
    by (simp add: probe_outcome_def auth_env_def auth_network_def supplied_def cookie_set_def
        start_def)
  have t: "st_trace (start (\<lambda>k. None) None) = []" "st_nreq (start (\<lambda>k. None) None) = 0"
    by (simp_all add: start_def)
  show ?thesis
    unfolding 1 2 3 o t by simp
qed

text \<open>
  C5 as stated fails for \<^verbatim>\<open>auth_with_cookies\<close>: given a cookie set without \<^verbatim>\<open>uat\<close> (the
  value \<^verbatim>\<open>None\<close>, which is what \<^verbatim>\<open>dict.get\<close> reads from a set that lacks it), it leaves
  the jar without that cookie and sends the probe all the same.
\<close>

theorem auth_with_cookies_probes_without_identity:
  "st_jar (snd (auth_with_cookies auth_env (start (\<lambda>k. None) None)
       None (Some ''s1'') (Some ''k1'') ''1687'' ''1'' ''1'' ''applicant''))
     (''.superjob.ru'', ''/'', ''uat'') = None \<and>
   st_trace (snd (auth_with_cookies auth_env (start (\<lambda>k. None) None)
       None (Some ''s1'') (Some ''k1'') ''1687'' ''1'' ''1'' ''applicant'')) =
     [EvRequest probe_request (TransportError ''timeout'')]"
  by (simp add: auth_with_cookies_def check_auth_def send_request_def auth_env_def
      auth_network_def cookie_set_def start_def probe_request_def Let_def)

subsection \<open>The cache and the adapters\<close>

lemma auth_with_cookies_facts:
  assumes "auth_with_cookies e s uat sat sask geo gc gs lat = (ok, s2)"
  shows "st_cache s2 = st_cache s \<and>
         (\<exists>out. st_trace s2 = st_trace s @ [EvRequest probe_request out] \<and>
                ok = (\<exists>loc b. out = Responded 200 loc b))"
proof -
  let ?s1 = "s\<lparr>st_jar := fold (\<lambda>(name, v) j. cookie_set j name v)
                 (supplied uat sat sask geo gc gs lat) (st_jar s)\<rparr>"
  have c: "check_auth e ?s1 = (ok, s2)"
    using assms by (simp add: auth_with_cookies_def supplied_def Let_def)
  have "s2 = snd (check_auth e ?s1)" "ok = fst (check_auth e ?s1)"
    using c by simp_all
  then show ?thesis
    unfolding check_auth_state check_auth_result by auto
qed

lemma auth_with_dict_facts:
  assumes "auth_with_dict e s d = (ok, s2)"
  shows "st_cache s2 = st_cache s \<and>
         (\<exists>out. st_trace s2 = st_trace s @ [EvRequest probe_request out] \<and>
                ok = (\<exists>loc b. out = Responded 200 loc b))"
  using assms unfolding auth_with_dict_def by (rule auth_with_cookies_facts)

lemma saved_at_end_Cons:
  assumes "saved_at_end e x c0 s' evs" and "\<And>c. ev \<noteq> EvSaveCache c"
  shows "saved_at_end e x c0 s' (ev # evs)"
proof -
  from assms(1) obtain pre br loc b cj where
    1: "evs = pre @ [EvExtract br, EvRequest probe_request (Responded 200 loc b),
                     EvSaveCache (dict_of cj)]" and
    2: "\<forall>c. EvSaveCache c \<notin> set pre" and 3: "x br = Inr cj" and
    4: "st_cache s' = (if cache_writable e then Some (dict_of cj) else c0)"
    unfolding saved_at_end_def by blast
  have 1: "ev # evs = (ev # pre) @ [EvExtract br, EvRequest probe_request (Responded 200 loc b),
                     EvSaveCache (dict_of cj)]"
    using 1 by simp
  have 2: "\<forall>c. EvSaveCache c \<notin> set (ev # pre)"
    using 2 assms(2) by auto
  show ?thesis
    unfolding saved_at_end_def using 1 2 3 4 by blast
qed

lemma adapters_outcome_Cons:
  assumes "adapters_outcome e x c0 r s' evs" and "\<And>c. ev \<noteq> EvSaveCache c"
  shows "adapters_outcome e x c0 r s' (ev # evs)"
proof (cases r)
  case True
  with assms show ?thesis by (simp add: adapters_outcome_def saved_at_end_Cons)
next
  case False
  with assms show ?thesis by (simp add: adapters_outcome_def) (metis)
qed

lemma try_browsers_trace:
  "try_browsers e x brs s = (r, s') \<Longrightarrow>
   \<exists>evs. st_trace s' = st_trace s @ evs \<and> adapters_outcome e x (st_cache s) r s' evs"
proof (induction brs arbitrary: s)
  case Nil
  then have "st_trace s' = st_trace s @ [] \<and> adapters_outcome e x (st_cache s) r s' []"
    by (auto simp: adapters_outcome_def)
  then show ?case by (rule exI)
next
  case (Cons br rest)
  let ?s1 = "s\<lparr>st_trace := st_trace s @ [EvExtract br]\<rparr>"
  have skip: "\<exists>evs. st_trace s' = st_trace s @ evs \<and> adapters_outcome e x (st_cache s) r s' evs"
    if rec: "try_browsers e x rest ?s1 = (r, s')"
  proof -
    from Cons.IH [OF rec] obtain evs where
      t: "st_trace s' = st_trace ?s1 @ evs" and
      o: "adapters_outcome e x (st_cache ?s1) r s' evs" by blast
    have "st_trace s' = st_trace s @ (EvExtract br # evs)" using t by simp
    moreover have "adapters_outcome e x (st_cache s) r s' (EvExtract br # evs)"
      using adapters_outcome_Cons [of e x "st_cache s" r s' evs "EvExtract br"] o by simp
    ultimately show ?thesis by blast
  qed
  show ?case
  proof (cases "x br")
    case (Inl msg)
    with Cons.prems have "try_browsers e x rest ?s1 = (r, s')" by simp
    then show ?thesis by (rule skip)
  next
    case (Inr cj)
    have d: "fold (\<lambda>(name, v) d. AList.update name v d) cj [] = dict_of cj"
      by (simp add: dict_of_def)
    show ?thesis
    proof (cases "missing_required (dict_of cj) \<noteq> []")
      case True
      with Inr Cons.prems have "try_browsers e x rest ?s1 = (r, s')" by (simp add: d)
      then show ?thesis by (rule skip)
    next
      case False
      then have nm: "missing_required (dict_of cj) = []" by simp
      obtain ok s2 where a: "auth_with_dict e ?s1 (dict_of cj) = (ok, s2)"
        by (cases "auth_with_dict e ?s1 (dict_of cj)")
      from auth_with_dict_facts [OF a] obtain out where
        c2: "st_cache s2 = st_cache s" and
        t2: "st_trace s2 = st_trace s @ [EvExtract br, EvRequest probe_request out]" and
        ok: "ok = (\<exists>loc b. out = Responded 200 loc b)"
        by auto
      show ?thesis
      proof (cases ok)
        case True
        have res: "try_browsers e x (br # rest) s = (True, save_cookies_to_cache e s2 (dict_of cj))"
          using Inr nm a True by (simp add: d)
        with Cons.prems have r: "r" and s': "s' = save_cookies_to_cache e s2 (dict_of cj)"
          by simp_all
        from True ok obtain loc b where out: "out = Responded 200 loc b" by blast
        let ?evs = "[EvExtract br, EvRequest probe_request (Responded 200 loc b),
                     EvSaveCache (dict_of cj)]"
        have 1: "st_trace s' = st_trace s @ ?evs"
          using s' t2 out by (simp add: save_cookies_to_cache_def)
        have 2: "st_cache s' = (if cache_writable e then Some (dict_of cj) else st_cache s)"
          using s' c2 by (simp add: save_cookies_to_cache_def)
        have "saved_at_end e x (st_cache s) s' ?evs"
          unfolding saved_at_end_def
          apply (rule exI [of _ "[]"], rule exI [of _ br], rule exI [of _ loc],
                 rule exI [of _ b], rule exI [of _ cj])
          using Inr 2 by simp
        with r have "adapters_outcome e x (st_cache s) r s' ?evs"
          by (simp add: adapters_outcome_def)
        with 1 show ?thesis by blast
      next
        case False
        have res: "try_browsers e x (br # rest) s = try_browsers e x rest s2"
          using Inr nm a False by (simp add: d)
        with Cons.prems have rec: "try_browsers e x rest s2 = (r, s')" by simp
        from Cons.IH [OF rec] obtain evs where
          t: "st_trace s' = st_trace s2 @ evs" and
          o: "adapters_outcome e x (st_cache s2) r s' evs" by blast
        let ?evs = "EvExtract br # EvRequest probe_request out # evs"
        have 1: "st_trace s' = st_trace s @ ?evs" using t t2 by simp
        have "adapters_outcome e x (st_cache s) r s' (EvRequest probe_request out # evs)"
          using adapters_outcome_Cons [of e x "st_cache s" r s' evs "EvRequest probe_request out"]
            o c2 by simp
        then have "adapters_outcome e x (st_cache s) r s' ?evs"
          using adapters_outcome_Cons [of e x "st_cache s" r s' _ "EvExtract br"] by simp
        with 1 show ?thesis by blast
      qed
    qed
  qed
qed

lemma adapters_outcome_append:
  assumes "adapters_outcome e x c0 r s' evs" and "\<forall>c. EvSaveCache c \<notin> set t"
  shows "adapters_outcome e x c0 r s' (t @ evs)"
  using assms(2)
proof (induction t)
  case Nil
  then show ?case using assms(1) by simp
next
  case (Cons a t)
  then have "adapters_outcome e x c0 r s' (t @ evs)" by simp
  moreover have "\<And>c. a \<noteq> EvSaveCache c" using Cons.prems by auto
  ultimately show ?case using adapters_outcome_Cons [of e x c0 r s' "t @ evs" a] by simp
qed

lemma auth_with_cached_cookies_facts:
  assumes "auth_with_cached_cookies e s = (cok, s1)"
  shows "st_cache s1 = st_cache s \<and>
         (\<exists>t. st_trace s1 = st_trace s @ EvLoadCache # t \<and>
              (\<forall>c. EvSaveCache c \<notin> set t) \<and> (\<forall>br. EvExtract br \<notin> set t))"
proof -
  let ?s0 = "s\<lparr>st_trace := st_trace s @ [EvLoadCache]\<rparr>"
  show ?thesis
  proof (cases "\<exists>d. st_cache s = Some d \<and> d \<noteq> [] \<and> missing_required d = []")
    case False
    then have "auth_with_cached_cookies e s = (False, ?s0)"
      by (cases "st_cache s") (auto simp: auth_with_cached_cookies_def load_cached_cookies_def)
    with assms have "s1 = ?s0" by simp
    then have "st_cache s1 = st_cache s \<and> st_trace s1 = st_trace s @ EvLoadCache # [] \<and>
              (\<forall>c. EvSaveCache c \<notin> set []) \<and> (\<forall>br. EvExtract br \<notin> set [])"
      by simp
    then show ?thesis by blast
  next
    case True
    then obtain d where d: "st_cache s = Some d" "d \<noteq> []" "missing_required d = []" by blast
    then have "auth_with_cached_cookies e s = auth_with_dict e ?s0 d"
      by (simp add: auth_with_cached_cookies_def load_cached_cookies_def)
    with assms have "auth_with_dict e ?s0 d = (cok, s1)" by simp
    from auth_with_dict_facts [OF this] obtain out where
      "st_cache s1 = st_cache s" "st_trace s1 = st_trace s @ EvLoadCache # [EvRequest probe_request out]"
      by auto
    moreover have "(\<forall>c. EvSaveCache c \<notin> set [EvRequest probe_request out]) \<and>
                   (\<forall>br. EvExtract br \<notin> set [EvRequest probe_request out])" by simp
    ultimately show ?thesis by blast
  qed
qed

text \<open>
  C2. In a call of \<^verbatim>\<open>auth_from_browser\<close> that is not forced, the first thing that happens
  is the reading of the cache, so every extraction from a browser comes after it. The cache
  is written at most once, as the last event of the call, and then the two events before the
  write are the extraction from a browser and the probe of the extracted cookies, answered
  with status 200; the cookies written are the extracted ones and the call answers
  \<^verbatim>\<open>True\<close>. In every other run no write happens and the cache is what it was. When the
  cached cookies validate, the call answers \<^verbatim>\<open>True\<close>, no browser is asked and nothing is
  written.
\<close>

theorem auth_from_browser_cache_discipline:
  assumes "auth_from_browser e s browser False = (res, s')"
  shows "\<exists>evs. st_trace s' = st_trace s @ EvLoadCache # evs \<and>
     (((\<forall>c. EvSaveCache c \<notin> set evs) \<and> st_cache s' = st_cache s) \<or>
      (\<exists>pre br loc b x cj.
          evs = pre @ [EvExtract br, EvRequest probe_request (Responded 200 loc b),
                       EvSaveCache (dict_of cj)] \<and>
          (\<forall>c. EvSaveCache c \<notin> set pre) \<and>
          browser_cookie3 e = Some x \<and> x br = Inr cj \<and> res = Inr True \<and>
          st_cache s' = (if cache_writable e then Some (dict_of cj) else st_cache s))) \<and>
     (fst (auth_with_cached_cookies e s)
        \<longrightarrow> res = Inr True \<and> (\<forall>c. EvSaveCache c \<notin> set evs) \<and>
            (\<forall>br. EvExtract br \<notin> set evs) \<and> st_cache s' = st_cache s)"
proof -
  obtain cok s1 where c: "auth_with_cached_cookies e s = (cok, s1)"
    by (cases "auth_with_cached_cookies e s")
  from auth_with_cached_cookies_facts [OF c] obtain t where
    c1: "st_cache s1 = st_cache s" and t1: "st_trace s1 = st_trace s @ EvLoadCache # t" and
    ns: "\<forall>c. EvSaveCache c \<notin> set t" and ne: "\<forall>br. EvExtract br \<notin> set t"
    by blast
  have plain: ?thesis if "s' = s1" and "cok \<longrightarrow> res = Inr True"
  proof -
    have "st_trace s' = st_trace s @ EvLoadCache # t \<and>
     (((\<forall>c. EvSaveCache c \<notin> set t) \<and> st_cache s' = st_cache s) \<or>
      (\<exists>pre br loc b x cj.
          t = pre @ [EvExtract br, EvRequest probe_request (Responded 200 loc b),
                       EvSaveCache (dict_of cj)] \<and>
          (\<forall>c. EvSaveCache c \<notin> set pre) \<and>
          browser_cookie3 e = Some x \<and> x br = Inr cj \<and> res = Inr True \<and>
          st_cache s' = (if cache_writable e then Some (dict_of cj) else st_cache s))) \<and>
     (fst (auth_with_cached_cookies e s)
        \<longrightarrow> res = Inr True \<and> (\<forall>c. EvSaveCache c \<notin> set t) \<and>
            (\<forall>br. EvExtract br \<notin> set t) \<and> st_cache s' = st_cache s)"
      using that c c1 t1 ns ne by simp
    then show ?thesis by (rule exI)
  qed
  have adapters: ?thesis
    if nc: "\<not> cok" and bc: "browser_cookie3 e = Some x"
      and tb: "try_browsers e x brs s1 = (r, s')" and res: "res = Inr r" for x brs r
  proof -
    from try_browsers_trace [OF tb] obtain evs where
      t2: "st_trace s' = st_trace s1 @ evs" and
      o: "adapters_outcome e x (st_cache s1) r s' evs" by blast
    have o': "adapters_outcome e x (st_cache s) r s' (t @ evs)"
      using adapters_outcome_append [OF o ns] c1 by simp
    have tr: "st_trace s' = st_trace s @ EvLoadCache # (t @ evs)"
      using t1 t2 by simp
    have nf: "\<not> fst (auth_with_cached_cookies e s)" using c nc by simp
    have "((\<forall>c. EvSaveCache c \<notin> set (t @ evs)) \<and> st_cache s' = st_cache s) \<or>
      (\<exists>pre br loc b x cj.
          t @ evs = pre @ [EvExtract br, EvRequest probe_request (Responded 200 loc b),
                       EvSaveCache (dict_of cj)] \<and>
          (\<forall>c. EvSaveCache c \<notin> set pre) \<and>
          browser_cookie3 e = Some x \<and> x br = Inr cj \<and> res = Inr True \<and>
          st_cache s' = (if cache_writable e then Some (dict_of cj) else st_cache s))"
    proof (cases r)
      case False
      with o' show ?thesis by (simp add: adapters_outcome_def)
    next
      case True
      with o' have "saved_at_end e x (st_cache s) s' (t @ evs)"
        by (simp add: adapters_outcome_def)
      then obtain pre br loc b cj where
        "t @ evs = pre @ [EvExtract br, EvRequest probe_request (Responded 200 loc b),
                     EvSaveCache (dict_of cj)]"
        "\<forall>c. EvSaveCache c \<notin> set pre" "x br = Inr cj"
        "st_cache s' = (if cache_writable e then Some (dict_of cj) else st_cache s)"
        unfolding saved_at_end_def by blast
      with bc res True show ?thesis by blast
    qed
    with tr nf show ?thesis by blast
  qed
  show ?thesis
  proof (cases cok)
    case True
    with assms c have "s' = s1" "res = Inr True"
      by (simp_all add: auth_from_browser_def)
    then show ?thesis using plain by simp
  next
    case False
    show ?thesis
    proof (cases "browser_cookie3 e")
      case None
      with assms c False have "s' = s1" by (simp add: auth_from_browser_def)
      then show ?thesis using plain False by simp
    next
      case (Some x)
      show ?thesis
      proof (cases "browser = ''auto''")
        case True
        obtain r s2 where tb: "try_browsers e x [''firefox'', ''chrome'', ''edge'', ''safari''] s1 = (r, s2)"
          by (cases "try_browsers e x [''firefox'', ''chrome'', ''edge'', ''safari''] s1")
        with assms c False Some True have eq: "s' = s2" "res = Inr r"
          by (simp_all add: auth_from_browser_def del: try_browsers.simps)
        show ?thesis by (rule adapters [OF False Some tb [folded eq(1)] eq(2)])
      next
        case nauto: False
        show ?thesis
        proof (cases "browser \<in> set [''chrome'', ''firefox'', ''edge'', ''safari'']")
          case False
          with assms c \<open>\<not> cok\<close> Some nauto have "s' = s1"
            by (simp add: auth_from_browser_def)
          then show ?thesis using plain \<open>\<not> cok\<close> by simp
        next
          case True
          obtain r s2 where tb: "try_browsers e x [browser] s1 = (r, s2)"
            by (cases "try_browsers e x [browser] s1")
          with assms c \<open>\<not> cok\<close> Some nauto True have eq: "s' = s2" "res = Inr r"
            by (auto simp: auth_from_browser_def simp del: try_browsers.simps)
          show ?thesis by (rule adapters [OF \<open>\<not> cok\<close> Some tb [folded eq(1)] eq(2)])
        qed
      qed
    qed
  qed
qed

lemmas auth_eval =
  auth_from_browser_def auth_with_cached_cookies_def load_cached_cookies_def
  auth_env_def auth_browsers_def missing_required_def auth_with_dict_def auth_with_cookies_def
  check_auth_def send_request_def auth_network_def cookie_set_def dict_get_def
  save_cookies_to_cache_def start_def Let_def

theorem auth_from_browser_cache_discipline_witness:
  "st_trace (snd (auth_from_browser auth_env (start (\<lambda>k. None) None) ''auto'' False)) =
     [EvLoadCache, EvExtract ''firefox'', EvExtract ''chrome'',
      EvRequest probe_request (Responded 200 None EmptyBody),
      EvSaveCache [(''uat'', ''good''), (''sat'', ''s1''), (''sask'', ''k1''), (''geo'', ''4'')]] \<and>
   (\<exists>evs. st_trace (snd (auth_from_browser auth_env (start (\<lambda>k. None) None) ''auto'' False))
            = st_trace (start (\<lambda>k. None) None) @ EvLoadCache # evs \<and>
      (\<exists>pre br loc b x cj.
          evs = pre @ [EvExtract br, EvRequest probe_request (Responded 200 loc b),
                       EvSaveCache (dict_of cj)] \<and>
          (\<forall>c. EvSaveCache c \<notin> set pre))) \<and>
   st_trace (snd (auth_from_browser auth_env
       (start (\<lambda>k. None) (Some [(''uat'', ''good''), (''sat'', ''s0''), (''sask'', ''k0'')]))
       ''auto'' False)) =
     [EvLoadCache, EvRequest probe_request (Responded 200 None EmptyBody)] \<and>
   st_cache (snd (auth_from_browser auth_env
       (start (\<lambda>k. None) (Some [(''uat'', ''good''), (''sat'', ''s0''), (''sask'', ''k0'')]))
       ''auto'' False)) = Some [(''uat'', ''good''), (''sat'', ''s0''), (''sask'', ''k0'')]"
proof -
  let ?s = "start (\<lambda>k. None) None"
  let ?r = "auth_from_browser auth_env ?s ''auto'' False"
  let ?c = "start (\<lambda>k. None) (Some [(''uat'', ''good''), (''sat'', ''s0''), (''sask'', ''k0'')])"
  let ?q = "auth_from_browser auth_env ?c ''auto'' False"
  have t: "st_trace (snd ?r) =
     [EvLoadCache, EvExtract ''firefox'', EvExtract ''chrome'',
      EvRequest probe_request (Responded 200 None EmptyBody),
      EvSaveCache [(''uat'', ''good''), (''sat'', ''s1''), (''sask'', ''k1''), (''geo'', ''4'')]]"
    by (simp add: auth_eval probe_request_def)
  have h: "?r = (fst ?r, snd ?r)" by simp
  from auth_from_browser_cache_discipline [OF h] obtain evs where
    1: "st_trace (snd ?r) = st_trace ?s @ EvLoadCache # evs" and
    2: "((\<forall>c. EvSaveCache c \<notin> set evs) \<and> st_cache (snd ?r) = st_cache ?s) \<or>
      (\<exists>pre br loc b x cj.
          evs = pre @ [EvExtract br, EvRequest probe_request (Responded 200 loc b),
                       EvSaveCache (dict_of cj)] \<and>
          (\<forall>c. EvSaveCache c \<notin> set pre) \<and>
          browser_cookie3 auth_env = Some x \<and> x br = Inr cj \<and> fst ?r = Inr True \<and>
          st_cache (snd ?r) = (if cache_writable auth_env then Some (dict_of cj)
                               else st_cache ?s))"
    by blast
  have "EvSaveCache [(''uat'', ''good''), (''sat'', ''s1''), (''sask'', ''k1''), (''geo'', ''4'')]
          \<in> set evs"
    using 1 t by (simp add: start_def)
  with 2 have 3: "\<exists>pre br loc b x cj.
          evs = pre @ [EvExtract br, EvRequest probe_request (Responded 200 loc b),
                       EvSaveCache (dict_of cj)] \<and>
          (\<forall>c. EvSaveCache c \<notin> set pre)"
    by blast
  have k: "?q = (fst ?q, snd ?q)" by simp
  have f: "fst (auth_with_cached_cookies auth_env ?c)"
    by (simp add: auth_eval)
  from auth_from_browser_cache_discipline [OF k] obtain evs' where
    "fst (auth_with_cached_cookies auth_env ?c) \<longrightarrow> fst ?q = Inr True \<and>
       (\<forall>c. EvSaveCache c \<notin> set evs') \<and> (\<forall>br. EvExtract br \<notin> set evs') \<and>
       st_cache (snd ?q) = st_cache ?c"
    by blast
  with f have 4: "st_cache (snd ?q) = st_cache ?c" by blast
  have 5: "st_trace (snd ?q) = [EvLoadCache, EvRequest probe_request (Responded 200 None EmptyBody)]"
    by (simp add: auth_eval probe_request_def)
  have 6: "st_cache ?c = Some [(''uat'', ''good''), (''sat'', ''s0''), (''sask'', ''k0'')]"
    by (simp add: start_def)
  from t 1 3 4 5 6 show ?thesis by metis
qed


section \<open>Properties of applications and of the driver\<close>

subsection \<open>One search, one application\<close>

lemma search_vacancies_eq:
  "search_vacancies e s kw limit offset =
     (search_result_of e (network e (st_nreq s) (st_jar s) (search_request kw limit offset)),
      s\<lparr>st_nreq := Suc (st_nreq s),
        st_trace := st_trace s @
          [EvRequest (search_request kw limit offset)
             (network e (st_nreq s) (st_jar s) (search_request kw limit offset))]\<rparr>)"
  by (simp add: search_vacancies_def send_request_def search_request_def search_result_of_def
      Let_def split: outcome.splits body.splits option.splits)

lemma send_message_trace:
  "st_trace (snd (send_message e s chat_id message)) =
     st_trace s @ [EvRequest (message_request chat_id message)
                     (network e (st_nreq s) (st_jar s) (message_request chat_id message))]"
  by (simp add: send_message_def send_request_def message_request_def Let_def
      split: outcome.splits body.splits)

lemma submissions_append [simp]:
  "submissions v (xs @ ys) = submissions v xs + submissions v ys"
  by (simp add: submissions_def)

lemma fetched_ids_append [simp]:
  "fetched_ids e (xs @ ys) = fetched_ids e xs @ fetched_ids e ys"
  by (simp add: fetched_ids_def)

lemma submissions_Nil [simp]: "submissions v [] = 0"
  by (simp add: submissions_def)

lemma fetched_ids_Nil [simp]: "fetched_ids e [] = []"
  by (simp add: fetched_ids_def)

lemma apply_to_vacancy_state:
  "snd (apply_to_vacancy e s vid rid cl nwe) =
     (if truthy (obtained_chat (apply_outcome e s vid rid nwe)) \<and> cl \<noteq> None \<and> cl \<noteq> Some []
      then snd (send_message e (after_apply e s vid rid nwe)
                  (obtained_chat (apply_outcome e s vid rid nwe))
                  (resolved_letter (st_config s) cl))
      else after_apply e s vid rid nwe)"
proof -
  have sr: "send_request e s (apply_request vid rid nwe) =
              (apply_outcome e s vid rid nwe, after_apply e s vid rid nwe)"
    by (simp add: send_request_def Let_def apply_outcome_def after_apply_def)
  have cfg: "st_config (after_apply e s vid rid nwe) = st_config s"
    by (simp add: after_apply_def)
  show ?thesis
  proof (cases "apply_outcome e s vid rid nwe")
    case (TransportError msg)
    then show ?thesis
      unfolding apply_to_vacancy_def apply_request_def [symmetric] sr
      by (simp add: obtained_chat_def)
  next
    case (Responded status loc b)
    then show ?thesis
      unfolding apply_to_vacancy_def apply_request_def [symmetric] sr
      by (cases b; cases cl)
         (auto simp: obtained_chat_def resolved_letter_def Let_def split_beta cfg)
  qed
qed

lemma apply_to_vacancy_success:
  "ar_success (fst (apply_to_vacancy e s vid rid cl nwe)) =
     (case apply_outcome e s vid rid nwe of
        Responded status loc b \<Rightarrow> (status = 200 \<or> status = 201) \<and> (\<forall>m. b \<noteq> BadBody m)
      | TransportError m \<Rightarrow> False)"
proof -
  have sr: "send_request e s (apply_request vid rid nwe) =
              (apply_outcome e s vid rid nwe, after_apply e s vid rid nwe)"
    by (simp add: send_request_def Let_def apply_outcome_def after_apply_def)
  show ?thesis
  proof (cases "apply_outcome e s vid rid nwe")
    case (TransportError msg)
    then show ?thesis
      unfolding apply_to_vacancy_def apply_request_def [symmetric] sr by simp
  next
    case (Responded status loc b)
    then show ?thesis
      unfolding apply_to_vacancy_def apply_request_def [symmetric] sr
      by (cases b) (auto simp: Let_def split_beta)
  qed
qed

lemma apply_to_vacancy_ok:
  "ar_success (fst (apply_to_vacancy e s vid rid cl nwe)) =
     apply_ok (network e (st_nreq s) (st_jar s) (apply_request vid rid nwe))"
  unfolding apply_to_vacancy_success apply_outcome_def apply_ok_def
  by (auto split: outcome.splits body.splits)

lemma apply_to_vacancy_trace:
  "\<exists>ms. st_trace (snd (apply_to_vacancy e s vid rid cl nwe)) =
      st_trace s @ EvRequest (apply_request vid rid nwe) (apply_outcome e s vid rid nwe) # ms \<and>
      (ms = [] \<or> (\<exists>c l out. ms = [EvRequest (message_request c l) out]))"
  unfolding apply_to_vacancy_state
  by (auto simp: send_message_trace after_apply_def)

lemma submissions_apply_events:
  "ms = [] \<or> (\<exists>c l out. ms = [EvRequest (message_request c l) out]) \<Longrightarrow>
   submissions v (EvRequest (apply_request vid rid nwe) out0 # ms) = (if v = vid then 1 else 0) \<and>
   fetched_ids e (EvRequest (apply_request vid rid nwe) out0 # ms) = []"
  by (auto simp: submissions_def fetched_ids_def is_application_def fetched_of_def
      apply_request_def message_request_def)

lemma apply_to_vacancy_effect:
  "\<exists>evs. st_trace (snd (apply_to_vacancy e s vid rid cl nwe)) = st_trace s @ evs \<and>
          (\<forall>v. submissions v evs = (if v = vid then 1 else 0)) \<and> fetched_ids e evs = []"
proof -
  from apply_to_vacancy_trace [of e s vid rid cl nwe] obtain ms where
    t: "st_trace (snd (apply_to_vacancy e s vid rid cl nwe)) =
      st_trace s @ EvRequest (apply_request vid rid nwe) (apply_outcome e s vid rid nwe) # ms"
    and m: "ms = [] \<or> (\<exists>c l out. ms = [EvRequest (message_request c l) out])"
    by blast
  from submissions_apply_events [OF m] t show ?thesis by blast
qed

subsection \<open>The example run\<close>


lemma job_extract:
  "extract_chat_id (JDict [(''included'',
          JList [JDict [(''type'', JStr ''chat''), (''id'', JStr c)]])]) = JStr c"
  by (simp add: extract_chat_id_def extract_chat_id_try_def)

lemma job_apply:
  "st_jar s = (\<lambda>k. None) \<Longrightarrow> st_config s = st_config (job_state letter) \<Longrightarrow>
   apply_to_vacancy job_env s vid ''R1'' (Some ''default'') False =
     (\<lparr>ar_success = True, ar_status_code = Some 201,
       ar_response = Some (JDict [(''included'',
          JList [JDict [(''type'', JStr ''chat''), (''id'', JStr (''C'' @ vid))]])]),
       ar_chat_id = JStr (''C'' @ vid),
       ar_chat_url = Some (BASE_URL @ ''/chat/?chatId=C'' @ vid),
       ar_cover_letter_sent = Some True, ar_error = None\<rparr>,
      s\<lparr>st_nreq := Suc (Suc (st_nreq s)),
        st_trace := st_trace s @
          [EvRequest (apply_request vid ''R1'' False) (job_chat vid),
           EvRequest (message_request (JStr (''C'' @ vid)) letter)
             (Responded 200 None EmptyBody)]\<rparr>)"
  by (simp add: apply_to_vacancy_def send_message_def send_request_def job_env_def
      job_network_def job_extract job_str_def job_state_def job_chat_def apply_request_def
      message_request_def Let_def)

lemma job_search:
  "kw = ''python'' \<or> kw = ''devops'' \<Longrightarrow>
   search_vacancies job_env s kw 2 0 =
     (\<lparr>sr_total = 2,
       sr_vacancies = (if kw = ''python'' then [job_vacancy ''V1'', job_vacancy ''V2'']
                       else [job_vacancy ''V2'', job_vacancy ''V3''])\<rparr>,
      s\<lparr>st_nreq := Suc (st_nreq s),
        st_trace := st_trace s @
          [EvRequest (search_request kw 2 0)
             (Responded 200 None (JsonBody (JList [JStr kw, JInt 0])))]\<rparr>)"
  by (auto simp: search_vacancies_def send_request_def job_env_def job_network_def job_pages_def
      search_request_def Let_def)

lemma job_run:
  "auto_apply job_env (job_state letter) None None None None =
     (Inr \<lparr>total_found = 4, applied = 3, failed = 0, skipped = 1,
           results = [job_entry ''V1'', job_entry ''V2'', job_entry ''V3'']\<rparr>,
      (job_state letter)\<lparr>st_nreq := 8, st_trace := job_trace letter\<rparr>)"
proof -
  have c: "st_config (job_state letter) =
       \<lparr>cfg_browser = ''auto'', cfg_resume_id = ''R1'',
        cfg_search_keywords = [''python'', ''devops''],
        cfg_search_limit = 2, cfg_max_pages = 1, cfg_cover_letter = letter\<rparr>"
    "st_jar (job_state letter) = (\<lambda>k. None)" "st_nreq (job_state letter) = 0"
    "st_trace (job_state letter) = []"
    by (simp_all add: job_state_def)
  show ?thesis
    by (simp add: auto_apply_def c job_search job_apply [of _ letter] Let_def job_vacancy_def
        job_entry_def job_trace_def)
qed

lemma job_trace_ids:
  "fetched_ids job_env (job_trace letter) = [''V1'', ''V2'', ''V2'', ''V3'']"
  by (simp add: job_trace_def fetched_ids_def fetched_of_def search_request_def
      apply_request_def message_request_def search_result_of_def job_env_def job_pages_def
      job_vacancy_def)

text \<open>
  C7 fails on the code. With the default argument and no cover letter configured, the text
  that \<^verbatim>\<open>apply_to_vacancy\<close> resolves is empty, and yet it sends a message, with that empty
  text, into the chat it obtained, and records the send as successful: the test of line 406
  is on the argument, before the default is resolved on line 407.
\<close>

theorem apply_sends_empty_cover_letter:
  "resolved_letter (st_config (job_state [])) (Some ''default'') = [] \<and>
   ar_chat_id (fst (apply_to_vacancy job_env (job_state []) ''V1'' ''R1''
                      (Some ''default'') False)) = JStr ''CV1'' \<and>
   ar_cover_letter_sent (fst (apply_to_vacancy job_env (job_state []) ''V1'' ''R1''
                                (Some ''default'') False)) = Some True \<and>
   st_trace (snd (apply_to_vacancy job_env (job_state []) ''V1'' ''R1''
                    (Some ''default'') False)) =
     [EvRequest (apply_request ''V1'' ''R1'' False) (job_chat ''V1''),
      EvRequest (message_request (JStr ''CV1'') []) (Responded 200 None EmptyBody)]"
proof -
  have "st_jar (job_state []) = (\<lambda>k. None)" "st_trace (job_state []) = []"
    by (simp_all add: job_state_def)
  then show ?thesis
    by (simp add: job_apply [of _ "[]"] resolved_letter_def) (simp add: job_state_def)
qed

subsection \<open>The page loop\<close>









subsection \<open>The loops of the driver\<close>

lemma fetch_pages_effect:
  "fetch_pages e kw limit pages acc s = (vs, s1) \<Longrightarrow>
   \<exists>evs. st_trace s1 = st_trace s @ evs \<and> (\<forall>v. submissions v evs = 0) \<and>
          map v_id vs = map v_id acc @ fetched_ids e evs"
proof (induction pages arbitrary: acc s)
  case Nil
  then have "st_trace s1 = st_trace s @ [] \<and> (\<forall>v. submissions v [] = 0) \<and>
          map v_id vs = map v_id acc @ fetched_ids e []" by simp
  then show ?case by (rule exI)
next
  case (Cons page pages)
  let ?off = "int page * limit"
  let ?out = "network e (st_nreq s) (st_jar s) (search_request kw limit ?off)"
  let ?ev = "EvRequest (search_request kw limit ?off) ?out"
  let ?r = "search_result_of e ?out"
  let ?s1 = "s\<lparr>st_nreq := Suc (st_nreq s), st_trace := st_trace s @ [?ev]\<rparr>"
  have ev: "submissions v [?ev] = 0" "fetched_ids e [?ev] = map v_id (sr_vacancies ?r)" for v
    by (simp_all add: submissions_def fetched_ids_def is_application_def fetched_of_def
        search_request_def)
  show ?case
  proof (cases "sr_vacancies ?r = [] \<or> ?off + limit \<ge> sr_total ?r")
    case True
    with Cons.prems have "vs = acc @ sr_vacancies ?r" "s1 = ?s1"
      by (auto simp: search_vacancies_eq Let_def split: if_splits)
    then have "st_trace s1 = st_trace s @ [?ev] \<and> (\<forall>v. submissions v [?ev] = 0) \<and>
          map v_id vs = map v_id acc @ fetched_ids e [?ev]"
      using ev by simp
    then show ?thesis by (rule exI)
  next
    case False
    with Cons.prems have "fetch_pages e kw limit pages (acc @ sr_vacancies ?r) ?s1 = (vs, s1)"
      by (auto simp: search_vacancies_eq Let_def split: if_splits)
    from Cons.IH [OF this] obtain evs where
      "st_trace s1 = st_trace ?s1 @ evs" "\<forall>v. submissions v evs = 0"
      "map v_id vs = map v_id (acc @ sr_vacancies ?r) @ fetched_ids e evs"
      by blast
    then have "st_trace s1 = st_trace s @ ([?ev] @ evs) \<and> (\<forall>v. submissions v ([?ev] @ evs) = 0) \<and>
          map v_id vs = map v_id acc @ fetched_ids e ([?ev] @ evs)"
      using ev unfolding submissions_append fetched_ids_append by simp
    then show ?thesis by (rule exI)
  qed
qed

lemma apply_each_skip:
  "v_id v \<in> A \<Longrightarrow>
   apply_each e rid (v # vs) (st, A, s) = apply_each e rid vs (st\<lparr>skipped := skipped st + 1\<rparr>, A, s)"
  by (simp add: Let_def)

lemma apply_each_submit:
  assumes "v_id v \<notin> A"
  shows "\<exists>st1 en.
     apply_each e rid (v # vs) (st, A, s) =
       apply_each e rid vs
         (st1, insert (v_id v) A, snd (apply_to_vacancy e s (v_id v) rid (Some ''default'') False)) \<and>
     (if ar_success (fst (apply_to_vacancy e s (v_id v) rid (Some ''default'') False))
      then applied st1 = applied st + 1 \<and> failed st1 = failed st
      else applied st1 = applied st \<and> failed st1 = failed st + 1) \<and>
     skipped st1 = skipped st \<and> total_found st1 = total_found st \<and>
     results st1 = results st @ [en] \<and> en_vacancy_id en = v_id v \<and>
     en_success en = ar_success (fst (apply_to_vacancy e s (v_id v) rid (Some ''default'') False))"
proof -
  let ?res = "fst (apply_to_vacancy e s (v_id v) rid (Some ''default'') False)"
  let ?s1 = "snd (apply_to_vacancy e s (v_id v) rid (Some ''default'') False)"
  let ?en0 = "\<lparr>en_vacancy_id = v_id v, en_title = v_title v, en_company = v_company v,
               en_success = ar_success ?res, en_chat_url = ar_chat_url ?res,
               en_cover_letter_sent = ar_cover_letter_sent ?res, en_error = None\<rparr>"
  show ?thesis
  proof (cases "ar_success ?res")
    case True
    let ?st1 = "st\<lparr>applied := applied st + 1, results := results st @ [?en0]\<rparr>"
    have eq: "apply_each e rid (v # vs) (st, A, s) =
                apply_each e rid vs (?st1, insert (v_id v) A, ?s1)"
      using assms True by (simp add: Let_def split_beta)
    show ?thesis
      by (rule exI [of _ ?st1], rule exI [of _ ?en0]) (simp add: eq True del: apply_each.simps)
  next
    case False
    let ?en1 = "?en0\<lparr>en_error := Some
                  (case ar_error ?res of
                     Some msg \<Rightarrow> msg
                   | None \<Rightarrow> py_str e (case ar_status_code ?res of
                                          None \<Rightarrow> JNull | Some c \<Rightarrow> JInt c))\<rparr>"
    let ?st1 = "st\<lparr>failed := failed st + 1, results := results st @ [?en1]\<rparr>"
    have eq: "apply_each e rid (v # vs) (st, A, s) =
                apply_each e rid vs (?st1, insert (v_id v) A, ?s1)"
      using assms False by (simp add: Let_def split_beta)
    show ?thesis
      by (rule exI [of _ ?st1], rule exI [of _ ?en1]) (simp add: eq False del: apply_each.simps)
  qed
qed

lemma card_diff_le_length: "card (set xs - A) \<le> length xs"
  by (meson List.finite_set card_length card_mono Diff_subset order_trans)

lemma apply_each_effect:
  "\<exists>evs. loop_effect e (st, A, s) (apply_each e rid vs (st, A, s)) (map v_id vs) evs \<and>
          fetched_ids e evs = [] \<and>
          total_found (fst (apply_each e rid vs (st, A, s))) = total_found st"
proof (induction vs arbitrary: st A s)
  case Nil
  have "loop_effect e (st, A, s) (apply_each e rid [] (st, A, s)) (map v_id []) [] \<and>
          fetched_ids e [] = [] \<and>
          total_found (fst (apply_each e rid [] (st, A, s))) = total_found st"
    by (simp add: loop_effect_def)
  then show ?case by (rule exI)
next
  case (Cons v vs)
  show ?case
  proof (cases "v_id v \<in> A")
    case True
    let ?st1 = "st\<lparr>skipped := skipped st + 1\<rparr>"
    obtain st' A' s' where r: "apply_each e rid vs (?st1, A, s) = (st', A', s')"
      by (cases "apply_each e rid vs (?st1, A, s)")
    from Cons.IH [of ?st1 A s] obtain evs where
      le: "loop_effect e (?st1, A, s) (st', A', s') (map v_id vs) evs" and
      f: "fetched_ids e evs = []" and tf: "total_found st' = total_found st"
      unfolding r by auto
    have d: "set (map v_id (v # vs)) - A = set (map v_id vs) - A"
      using True by auto
    have c: "card (set (map v_id vs) - A) \<le> length vs"
      using card_diff_le_length [of "map v_id vs" A] by simp
    have "loop_effect e (st, A, s) (st', A', s') (map v_id (v # vs)) evs"
      using le True c unfolding loop_effect_def d by auto
    with f tf show ?thesis
      unfolding apply_each_skip [OF True] r by auto
  next
    case False
    let ?s1 = "snd (apply_to_vacancy e s (v_id v) rid (Some ''default'') False)"
    from apply_each_submit [OF False, of e rid vs st s] obtain st1 en where
      eq: "apply_each e rid (v # vs) (st, A, s) =
             apply_each e rid vs (st1, insert (v_id v) A, ?s1)" and
      cnt: "applied st1 + failed st1 = applied st + failed st + 1" and
      sk: "skipped st1 = skipped st" and tf1: "total_found st1 = total_found st" and
      rs: "results st1 = results st @ [en]"
      by (auto split: if_splits)
    obtain st' A' s' where r: "apply_each e rid vs (st1, insert (v_id v) A, ?s1) = (st', A', s')"
      by (cases "apply_each e rid vs (st1, insert (v_id v) A, ?s1)")
    from Cons.IH [of st1 "insert (v_id v) A" ?s1] obtain evs where
      le: "loop_effect e (st1, insert (v_id v) A, ?s1) (st', A', s') (map v_id vs) evs" and
      f: "fetched_ids e evs = []" and tf: "total_found st' = total_found st1"
      unfolding r by auto
    from apply_to_vacancy_effect [of e s "v_id v" rid "Some ''default''" False] obtain evs0 where
      t0: "st_trace ?s1 = st_trace s @ evs0" and
      s0: "\<forall>u. submissions u evs0 = (if u = v_id v then 1 else 0)" and
      f0: "fetched_ids e evs0 = []"
      by blast
    have fin: "finite (set (map v_id vs) - insert (v_id v) A)" by simp
    have d: "set (map v_id (v # vs)) - A = insert (v_id v) (set (map v_id vs) - insert (v_id v) A)"
      using False by auto
    have cd: "card (set (map v_id (v # vs)) - A) = Suc (card (set (map v_id vs) - insert (v_id v) A))"
      unfolding d using fin by simp
    have c: "card (set (map v_id vs) - insert (v_id v) A) \<le> length vs"
      using card_diff_le_length [of "map v_id vs" "insert (v_id v) A"] by simp
    have "loop_effect e (st, A, s) (st', A', s') (map v_id (v # vs)) (evs0 @ evs)"
      unfolding loop_effect_def prod.case submissions_append
    proof (intro conjI allI)
      show "st_trace s' = st_trace s @ evs0 @ evs"
        using le t0 by (simp add: loop_effect_def)
      show "submissions u evs0 + submissions u evs =
              (if u \<in> set (map v_id (v # vs)) - A then 1 else 0)" for u
        using le s0 False unfolding d by (auto simp: loop_effect_def)
      show "A' = A \<union> set (map v_id (v # vs))"
        using le by (auto simp: loop_effect_def)
      show "skipped st' = skipped st + (length (map v_id (v # vs)) - card (set (map v_id (v # vs)) - A))"
        using le sk c unfolding cd by (simp add: loop_effect_def)
      show "applied st' + failed st' + skipped st' =
              applied st + failed st + skipped st + length (map v_id (v # vs))"
        using le cnt sk by (simp add: loop_effect_def)
      show "length (results st') + (applied st + failed st) =
              length (results st) + (applied st' + failed st')"
        using le cnt rs by (simp add: loop_effect_def)
    qed
    moreover have "fetched_ids e (evs0 @ evs) = []" using f f0 by simp
    moreover have "total_found st' = total_found st" using tf tf1 by simp
    ultimately show ?thesis unfolding eq r by auto
  qed
qed

lemma card_split_diff:
  "card (set (xs @ ys) - A) = card (set xs - A) + card (set ys - (A \<union> set xs))"
proof -
  have "set (xs @ ys) - A = (set xs - A) \<union> (set ys - (A \<union> set xs))" by auto
  moreover have "(set xs - A) \<inter> (set ys - (A \<union> set xs)) = {}" by auto
  ultimately show ?thesis by (simp add: card_Un_disjoint)
qed

lemma loop_effect_trans:
  assumes "loop_effect e (st, A, s) (st1, A1, s1) ids1 evs1"
    and "loop_effect e (st1, A1, s1) (st2, A2, s2) ids2 evs2"
  shows "loop_effect e (st, A, s) (st2, A2, s2) (ids1 @ ids2) (evs1 @ evs2)"
proof -
  from assms(1) have
    a1: "st_trace s1 = st_trace s @ evs1" and
    a2: "\<And>v. submissions v evs1 = (if v \<in> set ids1 - A then 1 else 0)" and
    a3: "A1 = A \<union> set ids1" and
    a4: "skipped st1 = skipped st + (length ids1 - card (set ids1 - A))" and
    a5: "applied st1 + failed st1 + skipped st1 =
           applied st + failed st + skipped st + length ids1" and
    a6: "length (results st1) + (applied st + failed st) =
           length (results st) + (applied st1 + failed st1)"
    by (simp_all add: loop_effect_def)
  from assms(2) have
    b1: "st_trace s2 = st_trace s1 @ evs2" and
    b2: "\<And>v. submissions v evs2 = (if v \<in> set ids2 - A1 then 1 else 0)" and
    b3: "A2 = A1 \<union> set ids2" and
    b4: "skipped st2 = skipped st1 + (length ids2 - card (set ids2 - A1))" and
    b5: "applied st2 + failed st2 + skipped st2 =
           applied st1 + failed st1 + skipped st1 + length ids2" and
    b6: "length (results st2) + (applied st1 + failed st1) =
           length (results st1) + (applied st2 + failed st2)"
    by (simp_all add: loop_effect_def)
  have c1: "card (set ids1 - A) \<le> length ids1" by (rule card_diff_le_length)
  have c2: "card (set ids2 - A1) \<le> length ids2" by (rule card_diff_le_length)
  have c: "card (set (ids1 @ ids2) - A) = card (set ids1 - A) + card (set ids2 - A1)"
    unfolding a3 by (rule card_split_diff)
  show ?thesis
    unfolding loop_effect_def prod.case submissions_append
  proof (intro conjI allI)
    show "st_trace s2 = st_trace s @ evs1 @ evs2" using a1 b1 by simp
    show "submissions v evs1 + submissions v evs2 =
            (if v \<in> set (ids1 @ ids2) - A then 1 else 0)" for v
      unfolding a2 b2 a3 by auto
    show "A2 = A \<union> set (ids1 @ ids2)" using a3 b3 by auto
    show "skipped st2 = skipped st + (length (ids1 @ ids2) - card (set (ids1 @ ids2) - A))"
      unfolding c using a4 b4 c1 c2 by simp
    show "applied st2 + failed st2 + skipped st2 =
            applied st + failed st + skipped st + length (ids1 @ ids2)"
      using a5 b5 by simp
    show "length (results st2) + (applied st + failed st) =
            length (results st) + (applied st2 + failed st2)"
      using a6 b6 by simp
  qed
qed

lemma loop_effect_fetch:
  assumes "st_trace s1 = st_trace s @ evs1" and "\<forall>v. submissions v evs1 = 0"
    and "loop_effect e (st\<lparr>total_found := n\<rparr>, A, s1) (st2, A2, s2) ids evs2"
  shows "loop_effect e (st, A, s) (st2, A2, s2) ids (evs1 @ evs2)"
  using assms unfolding loop_effect_def prod.case submissions_append by simp

lemma each_keyword_effect:
  "\<exists>evs. loop_effect e (st, A, s) (each_keyword e rid limit mp kws (st, A, s))
            (fetched_ids e evs) evs \<and>
          total_found (fst (each_keyword e rid limit mp kws (st, A, s))) =
            total_found st + length (fetched_ids e evs)"
proof (induction kws arbitrary: st A s)
  case Nil
  have "loop_effect e (st, A, s) (each_keyword e rid limit mp [] (st, A, s))
            (fetched_ids e []) [] \<and>
          total_found (fst (each_keyword e rid limit mp [] (st, A, s))) =
            total_found st + length (fetched_ids e [])"
    by (simp add: loop_effect_def)
  then show ?case by (rule exI)
next
  case (Cons kw kws)
  obtain vs s1 where f: "fetch_pages e kw limit [0..<nat mp] [] s = (vs, s1)"
    by (cases "fetch_pages e kw limit [0..<nat mp] [] s")
  let ?st0 = "st\<lparr>total_found := total_found st + length vs\<rparr>"
  obtain st2 A2 s2 where a: "apply_each e rid vs (?st0, A, s1) = (st2, A2, s2)"
    by (cases "apply_each e rid vs (?st0, A, s1)")
  obtain st3 A3 s3 where k: "each_keyword e rid limit mp kws (st2, A2, s2) = (st3, A3, s3)"
    by (cases "each_keyword e rid limit mp kws (st2, A2, s2)")
  have step: "each_keyword e rid limit mp (kw # kws) (st, A, s) = (st3, A3, s3)"
    by (simp add: f a k)
  from fetch_pages_effect [OF f] obtain evs1 where
    t1: "st_trace s1 = st_trace s @ evs1" and n1: "\<forall>v. submissions v evs1 = 0" and
    i1: "map v_id vs = fetched_ids e evs1"
    by auto
  from apply_each_effect [of e ?st0 A s1 rid vs] obtain evs2 where
    l2: "loop_effect e (?st0, A, s1) (st2, A2, s2) (map v_id vs) evs2" and
    f2: "fetched_ids e evs2 = []" and tf2: "total_found st2 = total_found st + length vs"
    unfolding a by auto
  from Cons.IH [of st2 A2 s2] obtain evs3 where
    l3: "loop_effect e (st2, A2, s2) (st3, A3, s3) (fetched_ids e evs3) evs3" and
    tf3: "total_found st3 = total_found st2 + length (fetched_ids e evs3)"
    unfolding k by auto
  have l12: "loop_effect e (st, A, s) (st2, A2, s2) (map v_id vs) (evs1 @ evs2)"
    by (rule loop_effect_fetch [OF t1 n1 l2])
  have ids: "fetched_ids e ((evs1 @ evs2) @ evs3) = map v_id vs @ fetched_ids e evs3"
    using i1 f2 by simp
  have 1: "loop_effect e (st, A, s) (st3, A3, s3) (fetched_ids e ((evs1 @ evs2) @ evs3))
          ((evs1 @ evs2) @ evs3)"
    unfolding ids by (rule loop_effect_trans [OF l12 l3])
  have 2: "total_found st3 = total_found st + length (fetched_ids e ((evs1 @ evs2) @ evs3))"
    unfolding ids using tf2 tf3 by simp
  have "loop_effect e (st, A, s) (each_keyword e rid limit mp (kw # kws) (st, A, s))
            (fetched_ids e ((evs1 @ evs2) @ evs3)) ((evs1 @ evs2) @ evs3) \<and>
          total_found (fst (each_keyword e rid limit mp (kw # kws) (st, A, s))) =
            total_found st + length (fetched_ids e ((evs1 @ evs2) @ evs3))"
    unfolding step using 1 2 by (simp del: fetched_ids_append append_assoc)
  then show ?case by (rule exI)
qed

text \<open>
  C3. In a run of \<^verbatim>\<open>auto_apply\<close> that returns statistics, every vacancy id that a search
  of the run returned is submitted exactly once, however many result sets hold it, and no
  other id is submitted; the skipped counter is the number of fetched occurrences minus the
  number of distinct ids, so every occurrence after the first of an id adds exactly one to
  it. Two keywords that share one id thus give one application for it and one skip.
\<close>

theorem auto_apply_submits_once:
  assumes "auto_apply e s keywords limit max_pages resume_id = (Inr st, s')"
  shows "\<exists>evs. st_trace s' = st_trace s @ evs \<and>
           (\<forall>vid. submissions vid evs = (if vid \<in> set (fetched_ids e evs) then 1 else 0)) \<and>
           skipped st = length (fetched_ids e evs) - card (set (fetched_ids e evs)) \<and>
           total_found st = length (fetched_ids e evs)"
proof -
  let ?st0 = "\<lparr>total_found = 0, applied = 0, failed = 0, skipped = 0, results = []\<rparr>"
  from assms obtain rid lim mp kws A where
    r: "each_keyword e rid lim mp kws (?st0, {}, s) = (st, A, s')"
    by (auto simp: auto_apply_def Let_def split: if_splits prod.splits)
  from each_keyword_effect [of e ?st0 "{}" s rid lim mp kws] obtain evs where
    l: "loop_effect e (?st0, {}, s) (st, A, s') (fetched_ids e evs) evs" and
    tf: "total_found st = length (fetched_ids e evs)"
    unfolding r by auto
  from l have "st_trace s' = st_trace s @ evs \<and>
           (\<forall>vid. submissions vid evs = (if vid \<in> set (fetched_ids e evs) then 1 else 0)) \<and>
           skipped st = length (fetched_ids e evs) - card (set (fetched_ids e evs))"
    by (simp add: loop_effect_def)
  with tf show ?thesis by blast
qed

theorem auto_apply_submits_once_witness:
  "\<exists>st s' evs.
     auto_apply job_env (job_state ''Hello'') None None None None = (Inr st, s') \<and>
     st_trace s' = st_trace (job_state ''Hello'') @ evs \<and>
     fetched_ids job_env evs = [''V1'', ''V2'', ''V2'', ''V3''] \<and>
     submissions ''V1'' evs = 1 \<and> submissions ''V2'' evs = 1 \<and> submissions ''V3'' evs = 1 \<and>
     submissions ''V4'' evs = 0 \<and> skipped st = 1"
proof -
  let ?st = "\<lparr>total_found = 4, applied = 3, failed = 0, skipped = 1,
              results = [job_entry ''V1'', job_entry ''V2'', job_entry ''V3'']\<rparr>"
  let ?s' = "(job_state ''Hello'')\<lparr>st_nreq := 8, st_trace := job_trace ''Hello''\<rparr>"
  have run: "auto_apply job_env (job_state ''Hello'') None None None None = (Inr ?st, ?s')"
    by (rule job_run)
  from auto_apply_submits_once [OF run] obtain evs where
    t: "st_trace ?s' = st_trace (job_state ''Hello'') @ evs" and
    sub: "\<forall>vid. submissions vid evs = (if vid \<in> set (fetched_ids job_env evs) then 1 else 0)" and
    sk: "skipped ?st = length (fetched_ids job_env evs) - card (set (fetched_ids job_env evs))"
    by blast
  from t have evs: "evs = job_trace ''Hello''" by (simp add: job_state_def)
  have ids: "fetched_ids job_env evs = [''V1'', ''V2'', ''V2'', ''V3'']"
    unfolding evs by (rule job_trace_ids)
  have "submissions ''V1'' evs = 1" "submissions ''V2'' evs = 1" "submissions ''V3'' evs = 1"
    "submissions ''V4'' evs = 0"
    using sub unfolding ids by simp_all
  with run t ids show ?thesis by (intro exI [of _ ?st] exI [of _ ?s'] exI [of _ evs]) simp
qed

lemma auto_apply_completes:
  "(\<exists>st s'. auto_apply e s keywords limit max_pages resume_id = (Inr st, s')) =
     (effective_keywords (st_config s) keywords \<noteq> [] \<and>
      effective_resume_id (st_config s) resume_id \<noteq> [])"
  by (auto simp: auto_apply_def effective_keywords_def effective_resume_id_def Let_def
      split: prod.splits)

text \<open>
  C10. A call of \<^verbatim>\<open>auto_apply\<close> whose keywords and resume id are not empty returns
  statistics, and the statistics that a run returns add up: the applied, failed and skipped
  counters sum to \<^verbatim>\<open>total_found\<close>, and the \<^verbatim>\<open>results\<close> list has one entry for each
  application, successful or failed.
\<close>

theorem auto_apply_accounts_for_every_vacancy:
  "(effective_keywords (st_config s) keywords \<noteq> [] \<and>
    effective_resume_id (st_config s) resume_id \<noteq> []
      \<longrightarrow> (\<exists>st s'. auto_apply e s keywords limit max_pages resume_id = (Inr st, s'))) \<and>
   (auto_apply e s keywords limit max_pages resume_id = (Inr st, s')
      \<longrightarrow> applied st + failed st + skipped st = total_found st \<and>
          length (results st) = applied st + failed st)"
proof (rule conjI; rule impI)
  assume "effective_keywords (st_config s) keywords \<noteq> [] \<and>
    effective_resume_id (st_config s) resume_id \<noteq> []"
  then show "\<exists>st s'. auto_apply e s keywords limit max_pages resume_id = (Inr st, s')"
    unfolding auto_apply_completes .
next
  let ?st0 = "\<lparr>total_found = 0, applied = 0, failed = 0, skipped = 0, results = []\<rparr>"
  assume a: "auto_apply e s keywords limit max_pages resume_id = (Inr st, s')"
  then obtain rid lim mp kws A where
    r: "each_keyword e rid lim mp kws (?st0, {}, s) = (st, A, s')"
    by (auto simp: auto_apply_def Let_def split: if_splits prod.splits)
  from each_keyword_effect [of e ?st0 "{}" s rid lim mp kws] obtain evs where
    l: "loop_effect e (?st0, {}, s) (st, A, s') (fetched_ids e evs) evs" and
    tf: "total_found st = length (fetched_ids e evs)"
    unfolding r by auto
  from l tf show "applied st + failed st + skipped st = total_found st \<and>
          length (results st) = applied st + failed st"
    by (simp add: loop_effect_def)
qed

theorem auto_apply_accounts_for_every_vacancy_witness:
  "\<exists>st s'.
     auto_apply job_env (job_state ''Hello'') None None None None = (Inr st, s') \<and>
     total_found st = 4 \<and> applied st + failed st + skipped st = total_found st \<and>
     length (results st) = applied st + failed st"
proof -
  have h: "effective_keywords (st_config (job_state ''Hello'')) None \<noteq> [] \<and>
           effective_resume_id (st_config (job_state ''Hello'')) None \<noteq> []"
    by (simp add: effective_keywords_def effective_resume_id_def job_state_def)
  from auto_apply_accounts_for_every_vacancy [THEN conjunct1, THEN mp, OF h]
  obtain st s' where
    run: "auto_apply job_env (job_state ''Hello'') None None None None = (Inr st, s')"
    by blast
  have "total_found st = 4" using run unfolding job_run by auto
  with auto_apply_accounts_for_every_vacancy [THEN conjunct2, THEN mp, OF run] run
  show ?thesis by blast
qed

subsection \<open>The scenario of two keywords\<close>

text \<open>
  C8. The configuration has the keywords \<^verbatim>\<open>python\<close> and \<^verbatim>\<open>devops\<close>, one page and a limit
  of 2, and a resume id; no argument is given to \<^verbatim>\<open>auto_apply\<close>. Whenever it is asked, the
  search for \<^verbatim>\<open>python\<close> returns two vacancies with the ids V1 and V2 and a total of 2, the
  search for \<^verbatim>\<open>devops\<close> two vacancies with the ids V2 and V3 and a total of 2, the three
  ids being different, and every application succeeds. Then the run returns statistics with
  \<^verbatim>\<open>total_found\<close> 4, \<^verbatim>\<open>applied\<close> 3, \<^verbatim>\<open>skipped\<close> 1 and \<^verbatim>\<open>failed\<close> 0, and its results are those
  of V1, V2 and V3, in this order.
\<close>

theorem end_to_end_statistics:
  assumes "cfg_search_keywords (st_config s) = [''python'', ''devops'']"
    and "cfg_max_pages (st_config s) = 1" and "cfg_search_limit (st_config s) = 2"
    and "cfg_resume_id (st_config s) = rid" and "rid \<noteq> []"
    and "\<And>n j. search_result_of e (network e n j (search_request ''python'' 2 0)) =
            \<lparr>sr_total = 2, sr_vacancies = [a, b]\<rparr>"
    and "\<And>n j. search_result_of e (network e n j (search_request ''devops'' 2 0)) =
            \<lparr>sr_total = 2, sr_vacancies = [c, d]\<rparr>"
    and "v_id a = V1" and "v_id b = V2" and "v_id c = V2" and "v_id d = V3"
    and "distinct [V1, V2, V3]"
    and "\<And>n j vid. apply_ok (network e n j (apply_request vid rid False))"
  shows "\<exists>st s'. auto_apply e s None None None None = (Inr st, s') \<and>
           total_found st = 4 \<and> applied st = 3 \<and> skipped st = 1 \<and> failed st = 0 \<and>
           map en_vacancy_id (results st) = [V1, V2, V3]"
proof -
  have ne: "V1 \<noteq> V2" "V2 \<noteq> V1" "V1 \<noteq> V3" "V3 \<noteq> V1" "V2 \<noteq> V3" "V3 \<noteq> V2"
    using assms(12) by auto
  have "total_found (projr (fst (auto_apply e s None None None None))) = 4 \<and>
        applied (projr (fst (auto_apply e s None None None None))) = 3 \<and>
        skipped (projr (fst (auto_apply e s None None None None))) = 1 \<and>
        failed (projr (fst (auto_apply e s None None None None))) = 0 \<and>
        map en_vacancy_id (results (projr (fst (auto_apply e s None None None None))))
          = [V1, V2, V3] \<and>
        \<not> isl (fst (auto_apply e s None None None None))"
    using assms(8-11) ne
    by (simp add: auto_apply_def assms(1-7) search_vacancies_eq Let_def split_beta
        apply_to_vacancy_ok assms(13) sum.disc)
  then show ?thesis
    by (cases "auto_apply e s None None None None"; cases "fst (auto_apply e s None None None None)")
       auto
qed

theorem end_to_end_statistics_witness:
  "\<exists>st s'. auto_apply job_env (job_state ''Hello'') None None None None = (Inr st, s') \<and>
           total_found st = 4 \<and> applied st = 3 \<and> skipped st = 1 \<and> failed st = 0 \<and>
           map en_vacancy_id (results st) = [''V1'', ''V2'', ''V3'']"
proof (rule end_to_end_statistics [where rid = "''R1''" and a = "job_vacancy ''V1''"
      and b = "job_vacancy ''V2''" and c = "job_vacancy ''V2''" and d = "job_vacancy ''V3''"])
  show "cfg_search_keywords (st_config (job_state ''Hello'')) = [''python'', ''devops'']"
    "cfg_max_pages (st_config (job_state ''Hello'')) = 1"
    "cfg_search_limit (st_config (job_state ''Hello'')) = 2"
    "cfg_resume_id (st_config (job_state ''Hello'')) = ''R1''"
    by (simp_all add: job_state_def)
  show "''R1'' \<noteq> []" by simp
  show "search_result_of job_env (network job_env n j (search_request ''python'' 2 0)) =
          \<lparr>sr_total = 2, sr_vacancies = [job_vacancy ''V1'', job_vacancy ''V2'']\<rparr>" for n j
    by (simp add: search_result_of_def job_env_def job_network_def search_request_def
        job_pages_def)
  show "search_result_of job_env (network job_env n j (search_request ''devops'' 2 0)) =
          \<lparr>sr_total = 2, sr_vacancies = [job_vacancy ''V2'', job_vacancy ''V3'']\<rparr>" for n j
    by (simp add: search_result_of_def job_env_def job_network_def search_request_def
        job_pages_def)
  show "v_id (job_vacancy ''V1'') = ''V1''" "v_id (job_vacancy ''V2'') = ''V2''"
    "v_id (job_vacancy ''V2'') = ''V2''" "v_id (job_vacancy ''V3'') = ''V3''"
    by (simp_all add: job_vacancy_def)
  show "distinct [''V1'', ''V2'', ''V3'']" by simp
  show "apply_ok (network job_env n j (apply_request vid ''R1'' False))" for n j vid
    by (simp add: apply_ok_def job_env_def job_network_def apply_request_def)
qed

end
